theory Spec2Isabelle
  imports Complex_Main
begin

section \<open>Python values and the operations main.py applies to them\<close>

text \<open>
  main.py handles decoded JSON everywhere (the request body, the replies of the remote
  endpoints, the reply of the language model) and applies Python operations to it that
  raise on a value of the wrong type. A value is a \<open>json\<close>; an operation that can raise
  returns \<open>exn + 'a\<close> with \<open>Inl\<close> the exception. Text is a \<open>string\<close>: a \<open>char\<close>
  is a code point below 256, and \<open>lower\<close> and \<open>strip\<close> treat every one of them as
  \<open>str.lower\<close> and \<open>str.strip\<close> do. Text with a code point beyond 255 has no
  counterpart here.
\<close>

datatype exn =
  AttributeError | TypeError | ValueError | KeyError | IndexError | OverflowError
  | RequestError | JSONDecodeError | LibraryError

datatype pyfloat = Finite rat | PosInf | NegInf | NaN

datatype json =
  JNull | JBool bool | JInt int | JFloat pyfloat | JStr string
  | JList "json list" | JDict "(string \<times> json) list"

definition bindE :: "exn + 'a \<Rightarrow> ('a \<Rightarrow> exn + 'b) \<Rightarrow> exn + 'b" where
  "bindE m f = (case m of Inl e \<Rightarrow> Inl e | Inr x \<Rightarrow> f x)"

text \<open>Truthiness, as \<open>if x\<close>, \<open>not x\<close> and \<open>x or y\<close> read it.\<close>

fun truthy :: "json \<Rightarrow> bool" where
  "truthy JNull = False"
| "truthy (JBool b) = b"
| "truthy (JInt i) = (i \<noteq> 0)"
| "truthy (JFloat (Finite q)) = (q \<noteq> 0)"
| "truthy (JFloat _) = True"
| "truthy (JStr s) = (s \<noteq> [])"
| "truthy (JList xs) = (xs \<noteq> [])"
| "truthy (JDict kvs) = (kvs \<noteq> [])"

text \<open>\<open>d.get(k, default)\<close>: only a dict has the method.\<close>

fun py_get :: "json \<Rightarrow> string \<Rightarrow> json \<Rightarrow> exn + json" where
  "py_get (JDict kvs) k dflt = Inr (case map_of kvs k of Some v \<Rightarrow> v | None \<Rightarrow> dflt)"
| "py_get _ k dflt = Inl AttributeError"

text \<open>\<open>d[k]\<close> with a string key.\<close>

fun py_item :: "json \<Rightarrow> string \<Rightarrow> exn + json" where
  "py_item (JDict kvs) k = (case map_of kvs k of Some v \<Rightarrow> Inr v | None \<Rightarrow> Inl KeyError)"
| "py_item _ k = Inl TypeError"

text \<open>\<open>xs[0]\<close>.\<close>

fun py_first :: "json \<Rightarrow> exn + json" where
  "py_first (JList []) = Inl IndexError"
| "py_first (JList (x # xs)) = Inr x"
| "py_first (JStr []) = Inl IndexError"
| "py_first (JStr (c # cs)) = Inr (JStr [c])"
| "py_first (JDict kvs) = Inl KeyError"
| "py_first _ = Inl TypeError"

fun py_len :: "json \<Rightarrow> exn + nat" where
  "py_len (JStr s) = Inr (length s)"
| "py_len (JList xs) = Inr (length xs)"
| "py_len (JDict kvs) = Inr (length kvs)"
| "py_len _ = Inl TypeError"

text \<open>\<open>x[:n]\<close> for a literal \<open>n \<ge> 0\<close>.\<close>

fun py_prefix :: "nat \<Rightarrow> json \<Rightarrow> exn + json" where
  "py_prefix n (JStr s) = Inr (JStr (take n s))"
| "py_prefix n (JList xs) = Inr (JList (take n xs))"
| "py_prefix n _ = Inl TypeError"

text \<open>\<open>xs[:limit]\<close> on a list, for any integer: a negative limit counts from the end.\<close>

definition slice_to :: "int \<Rightarrow> 'a list \<Rightarrow> 'a list" where
  "slice_to limit xs =
     (if 0 \<le> limit then take (nat limit) xs else take (length xs - nat (- limit)) xs)"

fun py_slice_to :: "int \<Rightarrow> json \<Rightarrow> exn + json" where
  "py_slice_to limit (JStr s) = Inr (JStr (slice_to limit s))"
| "py_slice_to limit (JList xs) = Inr (JList (slice_to limit xs))"
| "py_slice_to limit _ = Inl TypeError"

text \<open>\<open>for x in v\<close>: the items a loop visits.\<close>

fun py_iter :: "json \<Rightarrow> exn + json list" where
  "py_iter (JList xs) = Inr xs"
| "py_iter (JStr s) = Inr (map (\<lambda>c. JStr [c]) s)"
| "py_iter (JDict kvs) = Inr (map (\<lambda>kv. JStr (fst kv)) kvs)"
| "py_iter _ = Inl TypeError"

text \<open>
  The characters \<open>str.lower\<close> changes, and what it makes of them: the letters A to Z,
  and the capital letters from 0xC0 to 0xDE (0xD7, the multiplication sign, is none).
\<close>

definition upper_letters :: string where
  "upper_letters =
     ''ABCDEFGHIJKLMNOPQRSTUVWXYZ'' @
       [
        CHR 0xC0, CHR 0xC1, CHR 0xC2, CHR 0xC3, CHR 0xC4, CHR 0xC5, CHR 0xC6, CHR 0xC7,
        CHR 0xC8, CHR 0xC9, CHR 0xCA, CHR 0xCB, CHR 0xCC, CHR 0xCD, CHR 0xCE, CHR 0xCF,
        CHR 0xD0, CHR 0xD1, CHR 0xD2, CHR 0xD3, CHR 0xD4, CHR 0xD5, CHR 0xD6, CHR 0xD8,
        CHR 0xD9, CHR 0xDA, CHR 0xDB, CHR 0xDC, CHR 0xDD, CHR 0xDE]"

definition lower_letters :: string where
  "lower_letters =
     ''abcdefghijklmnopqrstuvwxyz'' @
       [
        CHR 0xE0, CHR 0xE1, CHR 0xE2, CHR 0xE3, CHR 0xE4, CHR 0xE5, CHR 0xE6, CHR 0xE7,
        CHR 0xE8, CHR 0xE9, CHR 0xEA, CHR 0xEB, CHR 0xEC, CHR 0xED, CHR 0xEE, CHR 0xEF,
        CHR 0xF0, CHR 0xF1, CHR 0xF2, CHR 0xF3, CHR 0xF4, CHR 0xF5, CHR 0xF6, CHR 0xF8,
        CHR 0xF9, CHR 0xFA, CHR 0xFB, CHR 0xFC, CHR 0xFD, CHR 0xFE]"

definition lower_char :: "char \<Rightarrow> char" where
  "lower_char c = (case map_of (zip upper_letters lower_letters) c of Some d \<Rightarrow> d | None \<Rightarrow> c)"

definition lower :: "string \<Rightarrow> string" where
  "lower s = map lower_char s"

fun py_lower :: "json \<Rightarrow> exn + string" where
  "py_lower (JStr s) = Inr (lower s)"
| "py_lower _ = Inl AttributeError"

definition endswith :: "string \<Rightarrow> string \<Rightarrow> bool" where
  "endswith s suf = (length suf \<le> length s \<and> drop (length s - length suf) s = suf)"

fun startswith :: "string \<Rightarrow> string \<Rightarrow> bool" where
  "startswith s [] = True"
| "startswith [] (p # ps) = False"
| "startswith (c # cs) (p # ps) = (c = p \<and> startswith cs ps)"

text \<open>\<open>k in s\<close> on two strings: \<open>k\<close> occurs in \<open>s\<close>.\<close>

fun substring :: "string \<Rightarrow> string \<Rightarrow> bool" where
  "substring k [] = (k = [])"
| "substring k (c # cs) = (startswith (c # cs) k \<or> substring k cs)"

text \<open>\<open>k in v\<close> for a string \<open>k\<close>.\<close>

fun py_in :: "string \<Rightarrow> json \<Rightarrow> exn + bool" where
  "py_in k (JStr s) = Inr (substring k s)"
| "py_in k (JList xs) = Inr (JStr k \<in> set xs)"
| "py_in k (JDict kvs) = Inr (k \<in> fst ` set kvs)"
| "py_in k _ = Inl TypeError"

text \<open>\<open>v > 0\<close>.\<close>

fun py_positive :: "json \<Rightarrow> exn + bool" where
  "py_positive (JInt i) = Inr (0 < i)"
| "py_positive (JBool b) = Inr b"
| "py_positive (JFloat (Finite q)) = Inr (0 < q)"
| "py_positive (JFloat PosInf) = Inr True"
| "py_positive (JFloat _) = Inr False"
| "py_positive _ = Inl TypeError"

text \<open>
  The characters \<open>str.strip()\<close> removes (those \<open>str.isspace\<close> accepts): the space,
  0x09 to 0x0D, 0x1C to 0x1F, the next-line control 0x85 and the no-break space 0xA0.
\<close>

definition is_space :: "char \<Rightarrow> bool" where
  "is_space c = (c \<in> set [CHR '' '', CHR 0x09, CHR 0x0A, CHR 0x0B, CHR 0x0C, CHR 0x0D,
                          CHR 0x1C, CHR 0x1D, CHR 0x1E, CHR 0x1F, CHR 0x85, CHR 0xA0])"

definition strip :: "string \<Rightarrow> string" where
  "strip s = rev (dropWhile is_space (rev (dropWhile is_space s)))"

fun py_strip :: "json \<Rightarrow> exn + string" where
  "py_strip (JStr s) = Inr (strip s)"
| "py_strip _ = Inl AttributeError"

section \<open>The outside world\<close>

text \<open>
  Every effect of main.py that leaves the process is an \<open>event\<close>, and a run carries the
  list of the events so far (the trace, oldest first). What the outside answers is an
  oracle of the environment that reads the trace, so the same call can be answered
  differently later in the run (a DNS record that changes, an endpoint that fails twice
  and then succeeds).

  Left out, since no result depends on them: the log lines, the timeouts of the
  requests, the length of a sleep (a \<open>Sleep\<close> event stands for the jitter and for the
  backoff alike), the browser the session impersonates, the fixed text of the prompt,
  and the rate limiter in front of the route.
\<close>

record request =
  req_url :: string
  req_params :: "(string \<times> json) list"
  req_headers :: "(string \<times> string) list"

record response =
  status_code :: int
  body_json :: "exn + json"
  body_text :: string

datatype event =
  GateCheck string bool
  | DnsLookup string
  | NetGet request
  | PlayApp json
  | PlayReviews json
  | Sleep
  | LlmCall string

type_synonym trace = "event list"

record ip_obj =
  is_private :: bool
  is_loopback :: bool

record parsed_url =
  scheme :: string
  hostname :: "string option"

text \<open>
  The library calls of main.py, as parameters: \<open>urlparse\<close>, \<open>socket.gethostbyname_ex\<close>
  (its address list), \<open>ipaddress.ip_address\<close>, \<open>requests.get\<close> and the session's
  \<open>get\<close>, \<open>google_play_scraper.app\<close> and \<open>reviews\<close> (its first component), the chat
  completion followed by \<open>json.loads\<close>, \<open>random.choice\<close> (the index chosen), and the
  builtins \<open>str\<close> (on a value that is not a string) and \<open>int\<close> (on a string).
\<close>

record env =
  urlparse :: "string \<Rightarrow> exn + parsed_url"
  gethostbyname_ex :: "trace \<Rightarrow> string \<Rightarrow> exn + string list"
  ip_address :: "string \<Rightarrow> exn + ip_obj"
  http_get :: "trace \<Rightarrow> request \<Rightarrow> exn + response"
  play_app :: "trace \<Rightarrow> json \<Rightarrow> exn + json"
  play_reviews :: "trace \<Rightarrow> json \<Rightarrow> exn + json"
  chat_completion :: "trace \<Rightarrow> string \<Rightarrow> exn + json"
  random_choice :: "trace \<Rightarrow> nat"
  py_str :: "json \<Rightarrow> string"
  str_to_int :: "string \<Rightarrow> int option"

text \<open>A value inside an f-string: a string stands for itself, anything else goes through \<open>str\<close>.\<close>

definition fmt :: "env \<Rightarrow> json \<Rightarrow> string" where
  "fmt e v = (case v of JStr s \<Rightarrow> s | _ \<Rightarrow> py_str e v)"

text \<open>\<open>int(v)\<close>.\<close>

fun py_int :: "env \<Rightarrow> json \<Rightarrow> exn + int" where
  "py_int e (JInt i) = Inr i"
| "py_int e (JBool b) = Inr (if b then 1 else 0)"
| "py_int e (JStr s) = (case str_to_int e s of Some i \<Rightarrow> Inr i | None \<Rightarrow> Inl ValueError)"
| "py_int e (JFloat (Finite q)) = Inr (if 0 \<le> q then \<lfloor>q\<rfloor> else \<lceil>q\<rceil>)"
| "py_int e (JFloat NaN) = Inl ValueError"
| "py_int e (JFloat _) = Inl OverflowError"
| "py_int e _ = Inl TypeError"

section \<open>SecurityManager\<close>

definition ALLOWED_DOMAINS :: "string list" where
  "ALLOWED_DOMAINS =
     [''hacker-news.firebaseio.com'',
      ''reddit.com'', ''www.reddit.com'', ''old.reddit.com'',
      ''itunes.apple.com'', ''apps.apple.com'']"

text \<open>The allowlist loop: stop at the first entry that matches.\<close>

fun is_allowed :: "string \<Rightarrow> string list \<Rightarrow> bool" where
  "is_allowed h [] = False"
| "is_allowed h (allowed # rest) =
     (if h = allowed \<or> endswith h (''.'' @ allowed) then True else is_allowed h rest)"

text \<open>The loop over the resolved addresses: the first private or loopback one ends it.\<close>

fun check_ips :: "env \<Rightarrow> string list \<Rightarrow> exn + bool" where
  "check_ips e [] = Inr True"
| "check_ips e (ip # rest) =
     (case ip_address e ip of
        Inl x \<Rightarrow> Inl x
      | Inr ip_obj \<Rightarrow>
          if is_private ip_obj \<or> is_loopback ip_obj then Inr False else check_ips e rest)"

text \<open>The body of the \<open>try\<close> of \<open>is_safe_url\<close>: its verdict or the exception it raises.\<close>

definition is_safe_url_try :: "env \<Rightarrow> trace \<Rightarrow> string \<Rightarrow> (exn + bool) \<times> trace" where
  "is_safe_url_try e tr url =
     (case urlparse e url of
        Inl x \<Rightarrow> (Inl x, tr)
      | Inr parsed \<Rightarrow>
          if scheme parsed \<noteq> ''https'' then (Inr False, tr)
          else (case hostname parsed of
                  None \<Rightarrow> (Inl AttributeError, tr)
                | Some h \<Rightarrow>
                    let host = lower h in
                    if \<not> is_allowed host ALLOWED_DOMAINS then (Inr False, tr)
                    else (case gethostbyname_ex e tr host of
                            Inl x \<Rightarrow> (Inl x, tr @ [DnsLookup host])
                          | Inr ip_list \<Rightarrow> (check_ips e ip_list, tr @ [DnsLookup host]))))"

text \<open>\<open>is_safe_url\<close>: the \<open>except\<close> turns every exception into False.\<close>

definition is_safe_url :: "env \<Rightarrow> trace \<Rightarrow> string \<Rightarrow> bool \<times> trace" where
  "is_safe_url e tr url =
     (let (r, tr') = is_safe_url_try e tr url;
          verdict = (case r of Inl x \<Rightarrow> False | Inr b \<Rightarrow> b)
      in (verdict, tr' @ [GateCheck url verdict]))"

section \<open>OpportunityRecord\<close>

text \<open>
  The dict every harvester appends: \<open>id\<close>, \<open>text\<close>, \<open>url\<close>, \<open>source\<close>. \<open>text\<close> and
  \<open>source\<close> are always built by an f-string; \<open>id\<close> and \<open>url\<close> can be a value taken
  from a reply as it is.
\<close>

record opportunity =
  opp_id :: json
  opp_text :: string
  opp_url :: json
  opp_source :: string

definition plain_get :: "string \<Rightarrow> (string \<times> string) list \<Rightarrow> request" where
  "plain_get u hs = \<lparr>req_url = u, req_params = [], req_headers = hs\<rparr>"

section \<open>Engine A: scrape_hn_opportunities\<close>

definition hn_list_url :: string where
  "hn_list_url = ''https://hacker-news.firebaseio.com/v0/askstories.json''"

definition hn_item_url :: "env \<Rightarrow> json \<Rightarrow> string" where
  "hn_item_url e sid = ''https://hacker-news.firebaseio.com/v0/item/'' @ fmt e sid @ ''.json''"

definition hn_keywords :: "string list" where
  "hn_keywords = [''how to'', ''alternative'', ''wish'', ''sucks'', ''problem'', ''hard to'']"

text \<open>
  The loop over \<open>story_ids\<close>: each item URL goes through the gate, and a fetch is
  scheduled (appended to \<open>tasks\<close>) only when it passes.
\<close>

fun hn_schedule :: "env \<Rightarrow> trace \<Rightarrow> string list \<Rightarrow> json list \<Rightarrow> string list \<times> trace" where
  "hn_schedule e tr tasks [] = (tasks, tr)"
| "hn_schedule e tr tasks (sid # rest) =
     (let item_url = hn_item_url e sid;
          (ok, tr1) = is_safe_url e tr item_url
      in hn_schedule e tr1 (if ok then tasks @ [item_url] else tasks) rest)"

text \<open>
  \<open>asyncio.gather(*tasks, return_exceptions=True)\<close>: the fetches are issued in the order
  of \<open>tasks\<close> and the list of results has one entry per task, in that order, an exception
  standing in the place of the fetch that raised it. The order in which the replies
  arrive is not part of the result.
\<close>

fun gather :: "env \<Rightarrow> trace \<Rightarrow> string list \<Rightarrow> (exn + response) list \<times> trace" where
  "gather e tr [] = ([], tr)"
| "gather e tr (u # us) =
     (let r = http_get e tr (plain_get u []);
          (rs, tr1) = gather e (tr @ [NetGet (plain_get u [])]) us
      in (r # rs, tr1))"

text \<open>\<open>any(k in title.lower() or k in text.lower() for k in keywords)\<close>.\<close>

fun any_keyword :: "json \<Rightarrow> json \<Rightarrow> string list \<Rightarrow> exn + bool" where
  "any_keyword title text [] = Inr False"
| "any_keyword title text (k # ks) =
     (case py_lower title of
        Inl x \<Rightarrow> Inl x
      | Inr title_l \<Rightarrow>
          if substring k title_l then Inr True
          else (case py_lower text of
                  Inl x \<Rightarrow> Inl x
                | Inr text_l \<Rightarrow>
                    if substring k text_l then Inr True else any_keyword title text ks))"

text \<open>One reply with status 200: the record it gives, none when no keyword occurs.\<close>

definition hn_story :: "env \<Rightarrow> response \<Rightarrow> exn + opportunity option" where
  "hn_story e r =
     bindE (body_json r) (\<lambda>story.
     bindE (py_get story ''text'' (JStr [])) (\<lambda>text0.
     bindE (py_get story ''title'' (JStr [])) (\<lambda>title0.
       let text = (if truthy text0 then text0 else JStr []);
           title = (if truthy title0 then title0 else JStr [])
       in bindE (any_keyword title text hn_keywords) (\<lambda>hit.
            if hit then
              bindE (py_get story ''id'' JNull) (\<lambda>sid.
              bindE (py_prefix 200 text) (\<lambda>snippet.
                Inr (Some \<lparr>opp_id = JStr (fmt e sid),
                           opp_text = ''[HN] '' @ fmt e title @ '' - '' @ fmt e snippet,
                           opp_url = JStr (''https://news.ycombinator.com/item?id='' @ fmt e sid),
                           opp_source = ''Hacker News''\<rparr>)))
            else Inr None))))"

text \<open>The loop over \<open>responses\<close>: an exception or a status other than 200 is skipped.\<close>

fun hn_collect :: "env \<Rightarrow> opportunity list \<Rightarrow> (exn + response) list \<Rightarrow> exn + opportunity list" where
  "hn_collect e opportunities [] = Inr opportunities"
| "hn_collect e opportunities (r # rs) =
     (case r of
        Inl x \<Rightarrow> hn_collect e opportunities rs
      | Inr resp \<Rightarrow>
          if status_code resp \<noteq> 200 then hn_collect e opportunities rs
          else (case hn_story e resp of
                  Inl x \<Rightarrow> Inl x
                | Inr None \<Rightarrow> hn_collect e opportunities rs
                | Inr (Some opp) \<Rightarrow> hn_collect e (opportunities @ [opp]) rs))"

text \<open>
  \<open>scrape_hn_opportunities(limit)\<close>. The first \<open>Sleep\<close> is the jitter. Any exception
  inside the \<open>try\<close> gives the empty list.
\<close>

definition scrape_hn_opportunities :: "env \<Rightarrow> trace \<Rightarrow> int \<Rightarrow> opportunity list \<times> trace" where
  "scrape_hn_opportunities e tr limit =
     (let (ok, tr1) = is_safe_url e tr hn_list_url in
      if \<not> ok then ([], tr1)
      else
        let tr2 = tr1 @ [Sleep];
            resp = http_get e tr2 (plain_get hn_list_url []);
            tr3 = tr2 @ [NetGet (plain_get hn_list_url [])]
        in (case bindE resp (\<lambda>r. bindE (body_json r) (\<lambda>ids. bindE (py_slice_to limit ids) py_iter)) of
              Inl x \<Rightarrow> ([], tr3)
            | Inr story_ids \<Rightarrow>
                let (tasks, tr4) = hn_schedule e tr3 [] story_ids;
                    (responses, tr5) = gather e tr4 tasks
                in (case hn_collect e [] responses of
                      Inl x \<Rightarrow> ([], tr5)
                    | Inr opportunities \<Rightarrow> (opportunities, tr5))))"

section \<open>Engine B: scrape_reddit_rss\<close>

definition USER_AGENTS :: "string list" where
  "USER_AGENTS =
     [''Mozilla/5.0 (Windows NT 10.0; Win64; x64) AppleWebKit/537.36 (KHTML, like Gecko) Chrome/120.0.0.0 Safari/537.36'',
      ''Mozilla/5.0 (Macintosh; Intel Mac OS X 10_15_7) AppleWebKit/537.36 (KHTML, like Gecko) Chrome/120.0.0.0 Safari/537.36'',
      ''Mozilla/5.0 (Windows NT 10.0; Win64; x64; rv:109.0) Gecko/20100101 Firefox/121.0'',
      ''Mozilla/5.0 (Macintosh; Intel Mac OS X 10_15_7) AppleWebKit/605.1.15 (KHTML, like Gecko) Version/17.2 Safari/605.1.15'',
      ''Mozilla/5.0 (X11; Linux x86_64) AppleWebKit/537.36 (KHTML, like Gecko) Chrome/120.0.0.0 Safari/537.36'',
      ''Mozilla/5.0 (Windows NT 10.0; Win64; x64) AppleWebKit/537.36 (KHTML, like Gecko) Edge/120.0.0.0 Safari/537.36'',
      ''Mozilla/5.0 (X11; Ubuntu; Linux x86_64; rv:109.0) Gecko/20100101 Firefox/121.0'',
      ''Mozilla/5.0 (iPhone; CPU iPhone OS 17_2 like Mac OS X) AppleWebKit/605.1.15 (KHTML, like Gecko) Version/17.2 Mobile/15E148 Safari/604.1'',
      ''Mozilla/5.0 (iPad; CPU OS 17_2 like Mac OS X) AppleWebKit/605.1.15 (KHTML, like Gecko) Version/17.2 Mobile/15E148 Safari/604.1'',
      ''Mozilla/5.0 (Android 14; Mobile; rv:121.0) Gecko/121.0 Firefox/121.0'']"

definition reddit_url :: "string \<Rightarrow> string" where
  "reddit_url clean_sub = ''https://www.reddit.com/r/'' @ clean_sub @ ''/hot.json?limit=25''"

text \<open>One post: the record it gives, none when it is stickied or its title is short.\<close>

definition reddit_post :: "env \<Rightarrow> string \<Rightarrow> json \<Rightarrow> exn + opportunity option" where
  "reddit_post e clean_sub post =
     bindE (py_get post ''data'' (JDict [])) (\<lambda>p_data.
     bindE (py_get p_data ''title'' (JStr [])) (\<lambda>title.
     bindE (py_get p_data ''selftext'' (JStr [])) (\<lambda>selftext.
     bindE (py_get p_data ''stickied'' JNull) (\<lambda>stickied.
     bindE (if truthy stickied then Inr True
            else bindE (py_len title) (\<lambda>n. Inr (n < 10))) (\<lambda>skip.
       if skip then Inr None
       else
         bindE (py_get p_data ''id'' JNull) (\<lambda>pid.
         bindE (py_prefix 200 selftext) (\<lambda>snippet.
         bindE (py_get p_data ''permalink'' JNull) (\<lambda>permalink.
           Inr (Some \<lparr>opp_id = pid,
                      opp_text = ''[Reddit r/'' @ clean_sub @ ''] '' @ fmt e title @ '' - ''
                                 @ fmt e snippet,
                      opp_url = JStr (''https://reddit.com'' @ fmt e permalink),
                      opp_source = ''Reddit r/'' @ clean_sub\<rparr>)))))))))"

text \<open>
  The loop over \<open>posts\<close>. It appends to the list of the whole harvest, so what it
  appended before a post raises stays appended: the result is the list and the
  exception that ended the loop, if one did.
\<close>

fun reddit_posts ::
  "env \<Rightarrow> string \<Rightarrow> opportunity list \<Rightarrow> json list \<Rightarrow> exn option \<times> opportunity list" where
  "reddit_posts e clean_sub opportunities [] = (None, opportunities)"
| "reddit_posts e clean_sub opportunities (post # rest) =
     (case reddit_post e clean_sub post of
        Inl x \<Rightarrow> (Some x, opportunities)
      | Inr None \<Rightarrow> reddit_posts e clean_sub opportunities rest
      | Inr (Some opp) \<Rightarrow> reddit_posts e clean_sub (opportunities @ [opp]) rest)"

text \<open>
  The part of a 200 reply up to the loop: \<open>resp.json()\<close>, the two \<open>get\<close>s and the
  \<open>len(posts)\<close> of the log line, then the posts the loop will visit.
\<close>

definition reddit_children :: "response \<Rightarrow> exn + json list" where
  "reddit_children resp =
     bindE (body_json resp) (\<lambda>data.
     bindE (py_get data ''data'' (JDict [])) (\<lambda>d.
     bindE (py_get d ''children'' (JList [])) (\<lambda>posts.
     bindE (py_len posts) (\<lambda>n. py_iter posts))))"

text \<open>
  One attempt, the body of the \<open>try\<close> with its \<open>except\<close>: the request, and on status 200
  the parse. The flag is \<open>success\<close>: True when the \<open>break\<close> is reached.
\<close>

definition reddit_attempt ::
  "env \<Rightarrow> trace \<Rightarrow> string \<Rightarrow> opportunity list \<Rightarrow> bool \<times> opportunity list \<times> trace" where
  "reddit_attempt e tr clean_sub opportunities =
     (let chosen_ua = USER_AGENTS ! (random_choice e tr mod length USER_AGENTS);
          req = plain_get (reddit_url clean_sub) [(''User-Agent'', chosen_ua)];
          tr1 = tr @ [NetGet req]
      in (case http_get e tr req of
            Inl x \<Rightarrow> (False, opportunities, tr1)
          | Inr resp \<Rightarrow>
              if status_code resp = 200 then
                (case reddit_children resp of
                   Inl x \<Rightarrow> (False, opportunities, tr1)
                 | Inr posts \<Rightarrow>
                     (case reddit_posts e clean_sub opportunities posts of
                        (Some x, opps) \<Rightarrow> (False, opps, tr1)
                      | (None, opps) \<Rightarrow> (True, opps, tr1)))
              else (False, opportunities, tr1)))"

definition attempts :: nat where
  "attempts = 3"

text \<open>
  \<open>for attempt in range(1, attempts + 1)\<close>, from \<open>attempt\<close> on: a success leaves the loop,
  a failure sleeps when \<open>attempt < attempts\<close> and goes on.
\<close>

function reddit_retry ::
  "env \<Rightarrow> trace \<Rightarrow> string \<Rightarrow> nat \<Rightarrow> opportunity list \<Rightarrow> bool \<times> opportunity list \<times> trace" where
  "reddit_retry e tr clean_sub attempt opportunities =
     (if attempts < attempt then (False, opportunities, tr)
      else
        (case reddit_attempt e tr clean_sub opportunities of
           (True, opps, tr1) \<Rightarrow> (True, opps, tr1)
         | (False, opps, tr1) \<Rightarrow>
             reddit_retry e (if attempt < attempts then tr1 @ [Sleep] else tr1)
               clean_sub (Suc attempt) opps))"
  by pat_completeness auto
termination
  by (relation "measure (\<lambda>(e, tr, clean_sub, attempt, opportunities). Suc attempts - attempt)")
     auto

declare reddit_retry.simps [simp del]

text \<open>
  The loop over \<open>subreddits\<close>. \<open>sub.strip()\<close> stands outside every \<open>try\<close>, so an entry
  that is not a string ends the whole function with the exception.
\<close>

fun reddit_subs ::
  "env \<Rightarrow> trace \<Rightarrow> opportunity list \<Rightarrow> json list \<Rightarrow> (exn + opportunity list) \<times> trace" where
  "reddit_subs e tr opportunities [] = (Inr opportunities, tr)"
| "reddit_subs e tr opportunities (sub # rest) =
     (case py_strip sub of
        Inl x \<Rightarrow> (Inl x, tr)
      | Inr clean_sub \<Rightarrow>
          (case is_safe_url e tr (reddit_url clean_sub) of
             (False, tr1) \<Rightarrow> reddit_subs e tr1 opportunities rest
           | (True, tr1) \<Rightarrow>
               (case reddit_retry e tr1 clean_sub 1 opportunities of
                  (success, opps, tr2) \<Rightarrow> reddit_subs e tr2 opps rest)))"

definition scrape_reddit_rss :: "env \<Rightarrow> trace \<Rightarrow> json \<Rightarrow> (exn + opportunity list) \<times> trace" where
  "scrape_reddit_rss e tr subreddits =
     (case py_iter subreddits of
        Inl x \<Rightarrow> (Inl x, tr)
      | Inr subs \<Rightarrow> reddit_subs e tr [] subs)"

section \<open>Engine C: app reviews\<close>

definition id_chars :: string where
  "id_chars = ''abcdefghijklmnopqrstuvwxyzABCDEFGHIJKLMNOPQRSTUVWXYZ0123456789_.''"

text \<open>
  \<open>re.search(r'details\?id=([a-zA-Z0-9_.]+)', text)\<close>: the group of the leftmost match,
  none when nothing matches.
\<close>

fun re_search_id :: "string \<Rightarrow> string option" where
  "re_search_id [] = None"
| "re_search_id (c # cs) =
     (if startswith (c # cs) ''details?id=''
         \<and> takeWhile (\<lambda>x. x \<in> set id_chars) (drop 11 (c # cs)) \<noteq> []
      then Some (takeWhile (\<lambda>x. x \<in> set id_chars) (drop 11 (c # cs)))
      else re_search_id cs)"

definition search_google_play_manual :: "env \<Rightarrow> trace \<Rightarrow> string \<Rightarrow> string option \<times> trace" where
  "search_google_play_manual e tr query =
     (let url = ''https://play.google.com/store/search?q='' @ query @ ''&c=apps'';
          req = plain_get url
                  [(''User-Agent'',
                    ''Mozilla/5.0 (Windows NT 10.0; Win64; x64) AppleWebKit/537.36 (KHTML, like Gecko) Chrome/91.0.4472.124 Safari/537.36'')]
      in (case http_get e tr req of
            Inl x \<Rightarrow> (None, tr @ [NetGet req])
          | Inr resp \<Rightarrow>
              if status_code resp = 200 then (re_search_id (body_text resp), tr @ [NetGet req])
              else (None, tr @ [NetGet req])))"

datatype platform = Android | Ios

record app_info =
  ai_platform :: platform
  ai_id :: json
  ai_title :: json
  ai_url :: json

definition try_android :: "env \<Rightarrow> trace \<Rightarrow> string \<Rightarrow> app_info option \<times> trace" where
  "try_android e tr name =
     (case search_google_play_manual e tr name of
        (None, tr1) \<Rightarrow> (None, tr1)
      | (Some gp_id, tr1) \<Rightarrow>
          if gp_id = [] then (None, tr1)
          else
            let title = (case bindE (play_app e tr1 (JStr gp_id))
                                (\<lambda>app_details. py_get app_details ''title'' (JStr name)) of
                           Inl x \<Rightarrow> JStr name
                         | Inr t \<Rightarrow> t)
            in (Some \<lparr>ai_platform = Android, ai_id = JStr gp_id, ai_title = title,
                       ai_url = JStr (''https://play.google.com/store/apps/details?id='' @ gp_id)\<rparr>,
                tr1 @ [PlayApp (JStr gp_id)]))"

definition ios_search_request :: "string \<Rightarrow> request" where
  "ios_search_request name =
     \<lparr>req_url = ''https://itunes.apple.com/search'',
      req_params = [(''term'', JStr name), (''entity'', JStr ''software''), (''limit'', JInt 1)],
      req_headers = []\<rparr>"

definition try_ios :: "env \<Rightarrow> trace \<Rightarrow> string \<Rightarrow> app_info option \<times> trace" where
  "try_ios e tr name =
     (case bindE (http_get e tr (ios_search_request name)) (\<lambda>resp.
           bindE (body_json resp) (\<lambda>data.
           bindE (py_item data ''resultCount'') (\<lambda>result_count.
           bindE (py_positive result_count) (\<lambda>found.
             if found then
               bindE (py_item data ''results'') (\<lambda>results.
               bindE (py_first results) (\<lambda>first.
               bindE (py_item first ''trackId'') (\<lambda>track_id.
               bindE (py_item first ''trackName'') (\<lambda>track_name.
               bindE (py_item first ''trackViewUrl'') (\<lambda>track_view_url.
                 Inr (Some \<lparr>ai_platform = Ios, ai_id = track_id, ai_title = track_name,
                            ai_url = track_view_url\<rparr>))))))
             else Inr None)))) of
        Inl x \<Rightarrow> (None, tr @ [NetGet (ios_search_request name)])
      | Inr found \<Rightarrow> (found, tr @ [NetGet (ios_search_request name)]))"

definition find_app :: "env \<Rightarrow> trace \<Rightarrow> string \<Rightarrow> json \<Rightarrow> app_info option \<times> trace" where
  "find_app e tr name platform_preference =
     (if platform_preference = JStr ''ios'' then try_ios e tr name else try_android e tr name)"

definition android_review :: "env \<Rightarrow> app_info \<Rightarrow> json \<Rightarrow> exn + opportunity option" where
  "android_review e info r =
     bindE (py_get r ''content'' (JStr [])) (\<lambda>content.
     bindE (py_len content) (\<lambda>n.
       if 10 < n then
         bindE (py_get r ''reviewId'' JNull) (\<lambda>review_id.
         bindE (py_prefix 300 content) (\<lambda>excerpt.
           Inr (Some \<lparr>opp_id = review_id,
                      opp_text = ''[Android Review] '' @ fmt e excerpt,
                      opp_url = ai_url info,
                      opp_source = ''Google Play ('' @ fmt e (ai_title info) @ '')''\<rparr>)))
       else Inr None))"

definition ios_review :: "env \<Rightarrow> app_info \<Rightarrow> json \<Rightarrow> exn + opportunity option" where
  "ios_review e info entry =
     bindE (py_in ''author'' entry) (\<lambda>has_author.
       if \<not> has_author then Inr None
       else
         bindE (bindE (py_get entry ''title'' (JDict [])) (\<lambda>d. py_get d ''label'' (JStr []))) (\<lambda>title.
         bindE (bindE (py_get entry ''content'' (JDict [])) (\<lambda>d. py_get d ''label'' (JStr []))) (\<lambda>content.
         bindE (bindE (py_get entry ''im:rating'' (JDict [])) (\<lambda>d. py_get d ''label'' (JStr ''?''))) (\<lambda>rating.
           let full_text = fmt e title @ '' - '' @ fmt e content in
           if 10 < length full_text then
             bindE (bindE (py_get entry ''id'' (JDict [])) (\<lambda>d. py_get d ''label'' JNull)) (\<lambda>entry_id.
               Inr (Some \<lparr>opp_id = entry_id,
                          opp_text = ''[iOS Review '' @ fmt e rating @ ''/5] '' @ take 300 full_text,
                          opp_url = ai_url info,
                          opp_source = ''App Store ('' @ fmt e (ai_title info) @ '')''\<rparr>))
           else Inr None))))"

text \<open>
  The two review loops append to \<open>opportunities\<close>; an item that raises ends the loop and
  leaves what was appended.
\<close>

fun review_loop ::
  "(json \<Rightarrow> exn + opportunity option) \<Rightarrow> opportunity list \<Rightarrow> json list
     \<Rightarrow> exn option \<times> opportunity list" where
  "review_loop item opportunities [] = (None, opportunities)"
| "review_loop item opportunities (r # rest) =
     (case item r of
        Inl x \<Rightarrow> (Some x, opportunities)
      | Inr None \<Rightarrow> review_loop item opportunities rest
      | Inr (Some opp) \<Rightarrow> review_loop item (opportunities @ [opp]) rest)"

definition ios_feed_url :: "env \<Rightarrow> app_info \<Rightarrow> string" where
  "ios_feed_url e info =
     ''https://itunes.apple.com/us/rss/customerreviews/id='' @ fmt e (ai_id info)
       @ ''/sortBy=mostRecent/json''"

text \<open>
  The \<open>try\<close> of \<open>scrape_reviews\<close>, for a resolved app: the list at the end of the
  \<open>try\<close> (or at the exception), the exception if one was raised, and the trace.
\<close>

definition fetch_reviews ::
  "env \<Rightarrow> trace \<Rightarrow> app_info \<Rightarrow> exn option \<times> opportunity list \<times> trace" where
  "fetch_reviews e tr info =
     (case ai_platform info of
        Android \<Rightarrow>
          (case bindE (play_reviews e tr (ai_id info)) py_iter of
             Inl x \<Rightarrow> (Some x, [], tr @ [PlayReviews (ai_id info)])
           | Inr result \<Rightarrow>
               (case review_loop (android_review e info) [] result of
                  (raised, opps) \<Rightarrow> (raised, opps, tr @ [PlayReviews (ai_id info)])))
      | Ios \<Rightarrow>
          (case bindE (http_get e tr (plain_get (ios_feed_url e info) [])) (\<lambda>resp.
                bindE (body_json resp) (\<lambda>data.
                bindE (py_get data ''feed'' (JDict [])) (\<lambda>feed.
                bindE (py_get feed ''entry'' (JList [])) py_iter))) of
             Inl x \<Rightarrow> (Some x, [], tr @ [NetGet (plain_get (ios_feed_url e info) [])])
           | Inr entries \<Rightarrow>
               (case review_loop (ios_review e info) [] entries of
                  (raised, opps) \<Rightarrow>
                    (raised, opps, tr @ [NetGet (plain_get (ios_feed_url e info) [])]))))"

text \<open>\<open>scrape_reviews\<close>: None is the Python None (the 404 signal).\<close>

definition scrape_reviews ::
  "env \<Rightarrow> trace \<Rightarrow> string \<Rightarrow> json \<Rightarrow> opportunity list option \<times> trace" where
  "scrape_reviews e tr target_app_name platform_preference =
     (case find_app e tr target_app_name platform_preference of
        (None, tr1) \<Rightarrow> (None, tr1)
      | (Some info, tr1) \<Rightarrow>
          (case fetch_reviews e tr1 info of
             (raised, opportunities, tr2) \<Rightarrow> (Some opportunities, tr2)))"

section \<open>Intelligence layer: generate_business_ideas\<close>

record idea =
  idea_name :: json
  idea_pitch :: json
  source_text :: string
  source_url :: json
  source_origin :: string

fun join :: "string \<Rightarrow> string list \<Rightarrow> string" where
  "join sep [] = []"
| "join sep [x] = x"
| "join sep (x # y # ys) = x @ sep @ join sep (y # ys)"

text \<open>The lines \<open>ID: i | Content: text\<close> of an enumerated list, numbered from \<open>i\<close>.\<close>

fun input_lines :: "env \<Rightarrow> nat \<Rightarrow> opportunity list \<Rightarrow> string list" where
  "input_lines e i [] = []"
| "input_lines e i (item # rest) =
     (''ID: '' @ fmt e (JInt (int i)) @ '' | Content: '' @ opp_text item) # input_lines e (Suc i) rest"

definition input_data :: "env \<Rightarrow> opportunity list \<Rightarrow> string list" where
  "input_data e collected_data = input_lines e 0 (take 30 collected_data)"

text \<open>The body of the inner \<open>try\<close>, for one idea of the reply.\<close>

definition enhance :: "env \<Rightarrow> opportunity list \<Rightarrow> json \<Rightarrow> exn + idea option" where
  "enhance e collected_data idea =
     bindE (py_get idea ''source_id'' (JInt (- 1))) (\<lambda>source_id.
     bindE (py_int e source_id) (\<lambda>idx.
       if 0 \<le> idx \<and> idx < int (length collected_data) then
         let original = collected_data ! nat idx in
         bindE (py_item idea ''name'') (\<lambda>name.
         bindE (py_item idea ''pitch'') (\<lambda>pitch.
           Inr (Some \<lparr>idea_name = name, idea_pitch = pitch,
                      source_text = opp_text original,
                      source_url = opp_url original,
                      source_origin = opp_source original\<rparr>)))
       else Inr None))"

text \<open>
  The loop over the ideas: the inner \<open>except (ValueError, IndexError)\<close> skips the idea,
  any other exception leaves the loop.
\<close>

fun enhance_loop :: "env \<Rightarrow> opportunity list \<Rightarrow> idea list \<Rightarrow> json list \<Rightarrow> exn + idea list" where
  "enhance_loop e collected_data enhanced_ideas [] = Inr enhanced_ideas"
| "enhance_loop e collected_data enhanced_ideas (idea # rest) =
     (case enhance e collected_data idea of
        Inl x \<Rightarrow>
          if x = ValueError \<or> x = IndexError
          then enhance_loop e collected_data enhanced_ideas rest
          else Inl x
      | Inr None \<Rightarrow> enhance_loop e collected_data enhanced_ideas rest
      | Inr (Some i) \<Rightarrow> enhance_loop e collected_data (enhanced_ideas @ [i]) rest)"

text \<open>
  \<open>generate_business_ideas\<close>. The event carries \<open>data_str\<close>, the part of the message
  that depends on the records; the oracle answers with the decoded reply
  (\<open>json.loads(content)\<close>) or the exception of the call or of the decoding.
\<close>

definition generate_business_ideas :: "env \<Rightarrow> trace \<Rightarrow> opportunity list \<Rightarrow> idea list \<times> trace" where
  "generate_business_ideas e tr collected_data =
     (if collected_data = [] then ([], tr)
      else
        let data_str = join [CHR 0x0A] (input_data e collected_data) in
        (case bindE (chat_completion e tr data_str) (\<lambda>reply.
              bindE (py_get reply ''ideas'' (JList [])) (\<lambda>result.
              bindE (py_iter result) (enhance_loop e collected_data []))) of
           Inl x \<Rightarrow> ([], tr @ [LlmCall data_str])
         | Inr enhanced_ideas \<Rightarrow> (enhanced_ideas, tr @ [LlmCall data_str])))"

section \<open>The route /generate-ideas\<close>

datatype payload = ErrorMsg string | Ideas nat "idea list"

datatype reply = Reply nat payload

definition server_error :: reply where
  "server_error = Reply 500 (ErrorMsg ''Something went wrong on the server. Please try again later.'')"

text \<open>The end of \<open>generate\<close>: the analysis and the success body.\<close>

definition analyze :: "env \<Rightarrow> trace \<Rightarrow> opportunity list \<Rightarrow> reply \<times> trace" where
  "analyze e tr collected_data =
     (case generate_business_ideas e tr collected_data of
        (ideas, tr1) \<Rightarrow> (Reply 200 (Ideas (length collected_data) ideas), tr1))"

text \<open>\<open>if source in ['reviews']\<close> and what follows it.\<close>

definition reviews_stage ::
  "env \<Rightarrow> trace \<Rightarrow> json \<Rightarrow> json \<Rightarrow> opportunity list \<Rightarrow> reply \<times> trace" where
  "reviews_stage e tr data source collected_data =
     (if source = JStr ''reviews'' then
        (case py_get data ''app_name'' (JStr []) of
           Inl x \<Rightarrow> (server_error, tr)
         | Inr app_name \<Rightarrow>
             if \<not> truthy app_name
             then (Reply 400 (ErrorMsg ''App Name cannot be empty for Reviews source''), tr)
             else
               (case py_strip app_name of
                  Inl x \<Rightarrow> (server_error, tr)
                | Inr stripped \<Rightarrow>
                    if stripped = []
                    then (Reply 400 (ErrorMsg ''App Name cannot be empty for Reviews source''), tr)
                    else
                      (case py_get data ''platform'' (JStr ''android'') of
                         Inl x \<Rightarrow> (server_error, tr)
                       | Inr platform \<Rightarrow>
                           (case scrape_reviews e tr (fmt e app_name) platform of
                              (None, tr1) \<Rightarrow>
                                (Reply 404 (ErrorMsg (''App '' @ [CHR 0x27] @ fmt e app_name
                                    @ [CHR 0x27] @ '' not found in '' @ fmt e platform
                                    @ '' store(s).'')), tr1)
                            | (Some reviews, tr1) \<Rightarrow>
                                analyze e tr1 (collected_data @ reviews)))))
      else analyze e tr collected_data)"

text \<open>\<open>isinstance(subs, list) and not any(subs)\<close>.\<close>

fun empty_list_of_falsy :: "json \<Rightarrow> bool" where
  "empty_list_of_falsy (JList xs) = (\<not> list_ex truthy xs)"
| "empty_list_of_falsy _ = False"

text \<open>\<open>if source in ['reddit', 'all']\<close> and what follows it.\<close>

definition reddit_stage ::
  "env \<Rightarrow> trace \<Rightarrow> json \<Rightarrow> json \<Rightarrow> opportunity list \<Rightarrow> reply \<times> trace" where
  "reddit_stage e tr data source collected_data =
     (if source = JStr ''reddit'' \<or> source = JStr ''all'' then
        (case py_get data ''subreddits'' (JList []) of
           Inl x \<Rightarrow> (server_error, tr)
         | Inr subs \<Rightarrow>
             if source = JStr ''reddit'' \<and> (\<not> truthy subs \<or> empty_list_of_falsy subs)
             then (Reply 400 (ErrorMsg ''Subreddits list cannot be empty for Reddit source''), tr)
             else
               (case scrape_reddit_rss e tr
                       (if \<not> truthy subs then JList [JStr ''SaaS'', JStr ''startups''] else subs) of
                  (Inl x, tr1) \<Rightarrow> (server_error, tr1)
                | (Inr found, tr1) \<Rightarrow> reviews_stage e tr1 data source (collected_data @ found)))
      else reviews_stage e tr data source collected_data)"

text \<open>
  \<open>generate\<close>, from the decoded request body (\<open>request.json\<close>). An exception that leaves
  the function is answered by the handler of status 500.
\<close>

definition generate :: "env \<Rightarrow> trace \<Rightarrow> json \<Rightarrow> reply \<times> trace" where
  "generate e tr data =
     (if \<not> truthy data then (Reply 400 (ErrorMsg ''Invalid JSON payload''), tr)
      else
        (case py_get data ''source'' (JStr ''all'') of
           Inl x \<Rightarrow> (server_error, tr)
         | Inr source \<Rightarrow>
             if source = JStr ''hn'' \<or> source = JStr ''all'' then
               (case scrape_hn_opportunities e tr 20 of
                  (found, tr1) \<Rightarrow> reddit_stage e tr1 data source found)
             else reddit_stage e tr data source []))"

section \<open>Notions for the statements\<close>

text \<open>
  A trace is gated when each of its network calls comes after a gate check of the same
  URL that passed. The two calls into google_play_scraper fetch from the store with no
  URL that main.py sees, so no gate check can stand before them.
\<close>

fun gated :: "string list \<Rightarrow> trace \<Rightarrow> bool" where
  "gated passed [] = True"
| "gated passed (GateCheck u ok # tr) = gated (if ok then u # passed else passed) tr"
| "gated passed (NetGet r # tr) = (req_url r \<in> set passed \<and> gated passed tr)"
| "gated passed (PlayApp v # tr) = False"
| "gated passed (PlayReviews v # tr) = False"
| "gated passed (DnsLookup h # tr) = gated passed tr"
| "gated passed (Sleep # tr) = gated passed tr"
| "gated passed (LlmCall p # tr) = gated passed tr"

text \<open>
  What a loop that appends leaves behind when an item can raise: the records of the
  items before the first one that raises, and that exception.
\<close>

fun kept_until :: "(json \<Rightarrow> exn + 'a option) \<Rightarrow> json list \<Rightarrow> 'a list" where
  "kept_until item [] = []"
| "kept_until item (r # rs) =
     (case item r of
        Inl x \<Rightarrow> []
      | Inr None \<Rightarrow> kept_until item rs
      | Inr (Some v) \<Rightarrow> v # kept_until item rs)"

fun first_raise :: "(json \<Rightarrow> exn + 'a option) \<Rightarrow> json list \<Rightarrow> exn option" where
  "first_raise item [] = None"
| "first_raise item (r # rs) =
     (case item r of Inl x \<Rightarrow> Some x | Inr v \<Rightarrow> first_raise item rs)"

text \<open>The request of an attempt that starts at the trace \<open>tr\<close>.\<close>

definition reddit_request :: "env \<Rightarrow> trace \<Rightarrow> string \<Rightarrow> request" where
  "reddit_request e tr clean_sub =
     plain_get (reddit_url clean_sub)
       [(''User-Agent'', USER_AGENTS ! (random_choice e tr mod length USER_AGENTS))]"



text \<open>A list with a separator between each two neighbours.\<close>

fun intersperse :: "'a \<Rightarrow> 'a list \<Rightarrow> 'a list" where
  "intersperse sep [] = []"
| "intersperse sep [x] = [x]"
| "intersperse sep (x # y # ys) = x # sep # intersperse sep (y # ys)"

text \<open>The records of a harvest (none when it raised).\<close>

definition harvested :: "exn + opportunity list \<Rightarrow> opportunity list" where
  "harvested r = (case r of Inl x \<Rightarrow> [] | Inr opps \<Rightarrow> opps)"

text \<open>
  A world whose resolver, endpoints and random choices answer the same at every
  moment of the run.
\<close>

definition history_free :: "env \<Rightarrow> bool" where
  "history_free e \<longleftrightarrow>
     (\<forall>tr h. gethostbyname_ex e tr h = gethostbyname_ex e [] h) \<and>
     (\<forall>tr r. http_get e tr r = http_get e [] r) \<and>
     (\<forall>tr. random_choice e tr = random_choice e [])"

text \<open>The URLs of the requests of a trace, in order.\<close>

fun net_urls :: "trace \<Rightarrow> string list" where
  "net_urls [] = []"
| "net_urls (NetGet r # tr) = req_url r # net_urls tr"
| "net_urls (ev # tr) = net_urls tr"

text \<open>The gate checks of a trace, in order: the URL and the verdict.\<close>

fun gate_checks :: "trace \<Rightarrow> (string \<times> bool) list" where
  "gate_checks [] = []"
| "gate_checks (GateCheck u ok # tr) = (u, ok) # gate_checks tr"
| "gate_checks (ev # tr) = gate_checks tr"

text \<open>What one slot of the batch contributes: one record or none.\<close>

definition hn_records :: "env \<Rightarrow> exn + response \<Rightarrow> opportunity list" where
  "hn_records e r =
     (case r of
        Inl x \<Rightarrow> []
      | Inr resp \<Rightarrow>
          if status_code resp \<noteq> 200 then []
          else (case hn_story e resp of Inr (Some opp) \<Rightarrow> [opp] | _ \<Rightarrow> []))"

text \<open>A fetch that failed: an exception in its slot, or a status other than 200.\<close>

definition fetch_failed :: "exn + response \<Rightarrow> bool" where
  "fetch_failed r = (case r of Inl x \<Rightarrow> True | Inr resp \<Rightarrow> status_code resp \<noteq> 200)"

text \<open>
  A slot of the batch that the loop cannot read: a reply with status 200 for which
  \<open>r.json()\<close>, a \<open>get\<close>, the keyword test or the slice raises.
\<close>

definition unreadable :: "env \<Rightarrow> exn + response \<Rightarrow> bool" where
  "unreadable e r =
     (case r of Inl x \<Rightarrow> False | Inr resp \<Rightarrow> status_code resp = 200 \<and> isl (hn_story e resp))"

text \<open>
  The records of a batch of results: what each slot contributes, in the order of the
  slots; and none at all when a slot is unreadable.
\<close>

definition hn_result :: "env \<Rightarrow> (exn + response) list \<Rightarrow> opportunity list" where
  "hn_result e responses =
     (if list_ex (unreadable e) responses then [] else concat (map (hn_records e) responses))"

text \<open>The URLs that have passed the gate once a trace has run.\<close>

fun passed_after :: "string list \<Rightarrow> trace \<Rightarrow> string list" where
  "passed_after passed [] = passed"
| "passed_after passed (GateCheck u ok # tr) = passed_after (if ok then u # passed else passed) tr"
| "passed_after passed (ev # tr) = passed_after passed tr"

text \<open>
  A request body that selects the review source with the app name \<open>name\<close> (not
  blank) and the platform preference \<open>pref\<close> (\<open>android\<close> when it gives none).
\<close>

definition reviews_request :: "(string \<times> json) list \<Rightarrow> string \<Rightarrow> json \<Rightarrow> bool" where
  "reviews_request kvs name pref \<longleftrightarrow>
     map_of kvs ''source'' = Some (JStr ''reviews'') \<and>
     map_of kvs ''app_name'' = Some (JStr name) \<and>
     strip name \<noteq> [] \<and>
     pref = (case map_of kvs ''platform'' of Some v \<Rightarrow> v | None \<Rightarrow> JStr ''android'')"

section \<open>Fixtures\<close>

text \<open>
  A small world to run the functions in: a URL parser for \<open>https://host/...\<close> and
  \<open>http://host/...\<close>, a resolver that sends \<open>internal.reddit.com\<close> to a loopback
  address and every other name to one public address.
\<close>

definition fx_urlparse :: "string \<Rightarrow> exn + parsed_url" where
  "fx_urlparse u =
     (if startswith u ''https://''
      then Inr \<lparr>scheme = ''https'', hostname = Some (takeWhile (\<lambda>c. c \<noteq> CHR ''/'') (drop 8 u))\<rparr>
      else if startswith u ''http://''
      then Inr \<lparr>scheme = ''http'', hostname = Some (takeWhile (\<lambda>c. c \<noteq> CHR ''/'') (drop 7 u))\<rparr>
      else Inr \<lparr>scheme = [], hostname = None\<rparr>)"

definition fx_dns :: "trace \<Rightarrow> string \<Rightarrow> exn + string list" where
  "fx_dns tr h = (if h = ''internal.reddit.com'' then Inr [''127.0.0.1''] else Inr [''151.101.1.140''])"

definition fx_ip :: "string \<Rightarrow> exn + ip_obj" where
  "fx_ip a = (if a = ''127.0.0.1'' then Inr \<lparr>is_private = True, is_loopback = True\<rparr>
              else Inr \<lparr>is_private = False, is_loopback = False\<rparr>)"

fun show_nat :: "nat \<Rightarrow> string" where
  "show_nat n =
     (if n < 10 then [''0123456789'' ! n]
      else show_nat (n div 10) @ [''0123456789'' ! (n mod 10)])"

declare show_nat.simps [simp del]

text \<open>\<open>str\<close> on an integer, None and a boolean, as Python prints them.\<close>

definition fx_py_str :: "json \<Rightarrow> string" where
  "fx_py_str v =
     (case v of
        JInt i \<Rightarrow> (if i < 0 then ''-'' @ show_nat (nat (- i)) else show_nat (nat i))
      | JNull \<Rightarrow> ''None''
      | JBool b \<Rightarrow> (if b then ''True'' else ''False'')
      | _ \<Rightarrow> ''?'')"

definition fx_env :: env where
  "fx_env =
     \<lparr>urlparse = fx_urlparse, gethostbyname_ex = fx_dns, ip_address = fx_ip,
      http_get = (\<lambda>tr r. Inl RequestError),
      play_app = (\<lambda>tr v. Inl LibraryError),
      play_reviews = (\<lambda>tr v. Inl LibraryError),
      chat_completion = (\<lambda>tr p. Inl LibraryError),
      random_choice = (\<lambda>tr. 0),
      py_str = fx_py_str,
      str_to_int = (\<lambda>s. None)\<rparr>"

text \<open>An endpoint table: the reply of each URL, a request error for any other.\<close>

definition fx_http :: "(string \<times> response) list \<Rightarrow> trace \<Rightarrow> request \<Rightarrow> exn + response" where
  "fx_http table tr r =
     (case map_of table (req_url r) of Some resp \<Rightarrow> Inr resp | None \<Rightarrow> Inl RequestError)"

definition fx_ok :: "json \<Rightarrow> response" where
  "fx_ok body = \<lparr>status_code = 200, body_json = Inr body, body_text = []\<rparr>"

text \<open>Thirty-one records and a model reply that names the index 30.\<close>

definition fx_record :: "nat \<Rightarrow> opportunity" where
  "fx_record i =
     \<lparr>opp_id = JInt (int i), opp_text = ''complaint '' @ show_nat i,
      opp_url = JStr (''https://reddit.com/c/'' @ show_nat i), opp_source = ''Reddit r/SaaS''\<rparr>"

definition fx_records :: "nat \<Rightarrow> opportunity list" where
  "fx_records n = map fx_record [0..<n]"

definition fx_llm_reply :: "int \<Rightarrow> json" where
  "fx_llm_reply i =
     JDict [(''ideas'', JList [JDict [(''name'', JStr ''Idea''), (''pitch'', JStr ''Pitch''),
                                      (''source_id'', JInt i)]])]"

definition fx_llm_env :: "int \<Rightarrow> env" where
  "fx_llm_env i = fx_env\<lparr>chat_completion := (\<lambda>tr p. Inr (fx_llm_reply i))\<rparr>"

text \<open>An App Store with one app and one review of it.\<close>

definition fx_ios_search_reply :: json where
  "fx_ios_search_reply =
     JDict [(''resultCount'', JInt 1),
            (''results'', JList [JDict [(''trackId'', JInt 42), (''trackName'', JStr ''Notion''),
                                        (''trackViewUrl'', JStr ''https://apps.apple.com/app/id42'')]])]"

definition fx_ios_feed :: json where
  "fx_ios_feed =
     JDict [(''feed'', JDict [(''entry'', JList
       [JDict [(''author'', JDict [(''name'', JDict [(''label'', JStr ''ann'')])]),
               (''title'', JDict [(''label'', JStr ''Sync is broken'')]),
               (''content'', JDict [(''label'', JStr ''I wish it worked offline'')]),
               (''im:rating'', JDict [(''label'', JStr ''2'')]),
               (''id'', JDict [(''label'', JStr ''r1'')])]])])]"

definition fx_ios_feed_url :: string where
  "fx_ios_feed_url = ''https://itunes.apple.com/us/rss/customerreviews/id=42/sortBy=mostRecent/json''"

definition fx_ios_env :: env where
  "fx_ios_env =
     fx_env\<lparr>http_get := fx_http [(''https://itunes.apple.com/search'', fx_ok fx_ios_search_reply),
                                  (fx_ios_feed_url, fx_ok fx_ios_feed)]\<rparr>"

text \<open>
  Three more App Stores: one that answers the search and nothing else, one whose review
  feed has no entry, one that knows no app.
\<close>

definition fx_ios_search_only :: env where
  "fx_ios_search_only =
     fx_env\<lparr>http_get := fx_http [(''https://itunes.apple.com/search'', fx_ok fx_ios_search_reply)]\<rparr>"

definition fx_ios_no_reviews :: env where
  "fx_ios_no_reviews =
     fx_env\<lparr>http_get := fx_http [(''https://itunes.apple.com/search'', fx_ok fx_ios_search_reply),
                                  (fx_ios_feed_url, fx_ok (JDict [(''feed'', JDict [])]))]\<rparr>"

definition fx_ios_no_app :: env where
  "fx_ios_no_app =
     fx_env\<lparr>http_get := fx_http [(''https://itunes.apple.com/search'',
                                   fx_ok (JDict [(''resultCount'', JInt 0), (''results'', JList [])]))]\<rparr>"

definition fx_reviews_request :: "(string \<times> json) list" where
  "fx_reviews_request =
     [(''source'', JStr ''reviews''), (''app_name'', JStr ''notion''), (''platform'', JStr ''ios'')]"

definition fx_notion :: app_info where
  "fx_notion =
     \<lparr>ai_platform = Ios, ai_id = JInt 42, ai_title = JStr ''Notion'',
      ai_url = JStr ''https://apps.apple.com/app/id42''\<rparr>"


definition fx_post :: "string \<Rightarrow> string \<Rightarrow> json" where
  "fx_post pid title =
     JDict [(''data'', JDict [(''id'', JStr pid), (''title'', JStr title),
                              (''selftext'', JStr ''details''), (''permalink'', JStr (''/r/x/'' @ pid))])]"

definition fx_listing :: "json list \<Rightarrow> json" where
  "fx_listing posts = JDict [(''data'', JDict [(''children'', JList posts)])]"

definition fx_html_200 :: response where
  "fx_html_200 = \<lparr>status_code = 200, body_json = Inl JSONDecodeError, body_text = ''<html>''\<rparr>"

definition fx_503 :: response where
  "fx_503 = \<lparr>status_code = 503, body_json = Inl JSONDecodeError, body_text = []\<rparr>"





definition fx_ab_env :: env where
  "fx_ab_env =
     fx_env\<lparr>http_get := fx_http
        [(reddit_url ''a'', fx_503),
         (reddit_url ''b'', fx_ok (fx_listing [fx_post ''b1'' ''I wish this existed'',
                                               fx_post ''b2'' ''Why is billing so hard to set up'']))]\<rparr>"

text \<open>
  A listing of four stories: the first and the fourth answer 200 with a title that
  holds a keyword, the second answers 500, the request of the third raises.
\<close>

definition fx_story :: "int \<Rightarrow> string \<Rightarrow> json" where
  "fx_story i title = JDict [(''id'', JInt i), (''title'', JStr title), (''text'', JStr ''body'')]"

definition fx_hn_env :: env where
  "fx_hn_env =
     fx_env\<lparr>http_get := fx_http
        [(hn_list_url, fx_ok (JList [JInt 101, JInt 102, JInt 103, JInt 104])),
         (''https://hacker-news.firebaseio.com/v0/item/101.json'',
            fx_ok (fx_story 101 ''Ask HN: How to price a SaaS'')),
         (''https://hacker-news.firebaseio.com/v0/item/102.json'',
            \<lparr>status_code = 500, body_json = Inl JSONDecodeError, body_text = []\<rparr>),
         (''https://hacker-news.firebaseio.com/v0/item/104.json'',
            fx_ok (fx_story 104 ''Ask HN: Alternative to Jira''))]\<rparr>"

text \<open>
  A listing of two stories: the first answers 200 with a title that holds a keyword,
  the second answers 200 with a body that is not JSON.
\<close>

definition fx_hn_bad_env :: env where
  "fx_hn_bad_env =
     fx_env\<lparr>http_get := fx_http
        [(hn_list_url, fx_ok (JList [JInt 101, JInt 105])),
         (''https://hacker-news.firebaseio.com/v0/item/101.json'',
            fx_ok (fx_story 101 ''Ask HN: How to price a SaaS'')),
         (''https://hacker-news.firebaseio.com/v0/item/105.json'', fx_html_200)]\<rparr>"

section \<open>The Safety Gate\<close>

lemma is_allowed_iff:
  "is_allowed h ds \<longleftrightarrow> (\<exists>d \<in> set ds. h = d \<or> endswith h (''.'' @ d))"
  by (induction ds) auto

lemma check_ips_True_iff:
  "check_ips e ips = Inr True \<longleftrightarrow>
     (\<forall>ip \<in> set ips. \<exists>obj. ip_address e ip = Inr obj \<and> \<not> is_private obj \<and> \<not> is_loopback obj)"
  by (induction ips) (auto split: sum.splits)

text \<open>
  C3. \<open>is_safe_url\<close> always returns a boolean (it is a total function into \<open>bool\<close>:
  the \<open>except\<close> leaves no exception to the caller). It returns True exactly when the URL
  parses, its scheme is \<open>https\<close>, it has a hostname which (lowercased) equals an entry of
  the allowlist or ends with a dot followed by one, the resolver answers, and every
  address of the answer is a valid address that is neither private nor loopback. Whenever
  the body of the \<open>try\<close> raises (the parser, a missing hostname, the resolver, an
  address that does not parse) the verdict is False.
\<close>

theorem is_safe_url_spec:
  "(fst (is_safe_url e tr url) \<longleftrightarrow>
      (\<exists>p h ips. urlparse e url = Inr p \<and> scheme p = ''https'' \<and> hostname p = Some h \<and>
         (\<exists>d \<in> set ALLOWED_DOMAINS. lower h = d \<or> endswith (lower h) (''.'' @ d)) \<and>
         gethostbyname_ex e tr (lower h) = Inr ips \<and>
         (\<forall>ip \<in> set ips. \<exists>obj. ip_address e ip = Inr obj \<and>
            \<not> is_private obj \<and> \<not> is_loopback obj))) \<and>
   (\<forall>x. fst (is_safe_url_try e tr url) = Inl x \<longrightarrow> \<not> fst (is_safe_url e tr url)) \<and>
   (\<forall>x. urlparse e url = Inl x \<longrightarrow> \<not> fst (is_safe_url e tr url)) \<and>
   (\<forall>p. urlparse e url = Inr p \<and> hostname p = None \<longrightarrow> \<not> fst (is_safe_url e tr url)) \<and>
   (\<forall>p h x. urlparse e url = Inr p \<and> hostname p = Some h \<and>
      gethostbyname_ex e tr (lower h) = Inl x \<longrightarrow> \<not> fst (is_safe_url e tr url))"
proof (intro conjI)
  show "fst (is_safe_url e tr url) \<longleftrightarrow>
      (\<exists>p h ips. urlparse e url = Inr p \<and> scheme p = ''https'' \<and> hostname p = Some h \<and>
         (\<exists>d \<in> set ALLOWED_DOMAINS. lower h = d \<or> endswith (lower h) (''.'' @ d)) \<and>
         gethostbyname_ex e tr (lower h) = Inr ips \<and>
         (\<forall>ip \<in> set ips. \<exists>obj. ip_address e ip = Inr obj \<and>
            \<not> is_private obj \<and> \<not> is_loopback obj))"
    unfolding is_safe_url_def is_safe_url_try_def Let_def
    by (auto simp: is_allowed_iff check_ips_True_iff[symmetric]
             split: sum.splits option.splits prod.splits)
  show "\<forall>x. fst (is_safe_url_try e tr url) = Inl x \<longrightarrow> \<not> fst (is_safe_url e tr url)"
    by (auto simp: is_safe_url_def Let_def split: prod.splits)
  show "\<forall>x. urlparse e url = Inl x \<longrightarrow> \<not> fst (is_safe_url e tr url)"
    by (auto simp: is_safe_url_def is_safe_url_try_def Let_def split: prod.splits)
  show "\<forall>p. urlparse e url = Inr p \<and> hostname p = None \<longrightarrow> \<not> fst (is_safe_url e tr url)"
    by (auto simp: is_safe_url_def is_safe_url_try_def Let_def split: prod.splits)
  show "\<forall>p h x. urlparse e url = Inr p \<and> hostname p = Some h \<and>
      gethostbyname_ex e tr (lower h) = Inl x \<longrightarrow> \<not> fst (is_safe_url e tr url)"
    by (auto simp: is_safe_url_def is_safe_url_try_def Let_def split: prod.splits if_splits)
qed

theorem is_safe_url_spec_witness:
  "fst (is_safe_url fx_env [] ''https://www.reddit.com/r/SaaS/hot.json?limit=25'') \<and>
   \<not> fst (is_safe_url fx_env [] ''https://internal.reddit.com/r/SaaS/hot.json?limit=25'') \<and>
   \<not> fst (is_safe_url fx_env [] ''http://www.reddit.com/r/SaaS/hot.json?limit=25'') \<and>
   \<not> fst (is_safe_url fx_env [] ''https://evilreddit.com/'')"
proof -
  have a: "fst (is_safe_url fx_env [] ''https://www.reddit.com/r/SaaS/hot.json?limit=25'')"
    by code_simp
  have b: "\<not> fst (is_safe_url fx_env [] ''https://internal.reddit.com/r/SaaS/hot.json?limit=25'')"
    using is_safe_url_spec [of fx_env "[]" "''https://internal.reddit.com/r/SaaS/hot.json?limit=25''"]
    by (simp add: fx_env_def fx_urlparse_def fx_dns_def fx_ip_def lower_def lower_char_def
          upper_letters_def lower_letters_def)
  have c: "\<not> fst (is_safe_url fx_env [] ''http://www.reddit.com/r/SaaS/hot.json?limit=25'')"
    by code_simp
  have d: "\<not> fst (is_safe_url fx_env [] ''https://evilreddit.com/'')"
    by code_simp
  from a b c d show ?thesis by simp
qed


section \<open>The Synthesis Adapter\<close>

text \<open>
  C2, at a failing input. Thirty-one records are collected; the first 30 are submitted
  (the last line sent is the one of index 29); the model's reply names index 30, outside
  the submitted prefix. The bound the code tests is the length of the whole list, so
  the idea is kept, with the text and link of a record that was never submitted.
\<close>

theorem idea_beyond_prefix_kept:
  "length (input_data (fx_llm_env 30) (fx_records 31)) = 30 \<and>
   last (input_data (fx_llm_env 30) (fx_records 31)) = ''ID: 29 | Content: complaint 29'' \<and>
   fst (generate_business_ideas (fx_llm_env 30) [] (fx_records 31)) =
     [\<lparr>idea_name = JStr ''Idea'', idea_pitch = JStr ''Pitch'', source_text = ''complaint 30'',
       source_url = JStr ''https://reddit.com/c/30'', source_origin = ''Reddit r/SaaS''\<rparr>]"
  by code_simp

section \<open>The gate and the harvesters\<close>

text \<open>
  C1, at a failing input. The review harvest for the name \<open>notion\<close> on \<open>ios\<close>
  issues the store search and the review feed request and returns a record, and its
  trace holds no gate check at all: it is not gated.
\<close>

theorem review_harvest_not_gated:
  "scrape_reviews fx_ios_env [] ''notion'' (JStr ''ios'') =
     (Some [\<lparr>opp_id = JStr ''r1'',
             opp_text = ''[iOS Review 2/5] Sync is broken - I wish it worked offline'',
             opp_url = JStr ''https://apps.apple.com/app/id42'',
             opp_source = ''App Store (Notion)''\<rparr>],
      [NetGet (ios_search_request ''notion''), NetGet (plain_get fx_ios_feed_url [])]) \<and>
   \<not> gated [] (snd (scrape_reviews fx_ios_env [] ''notion'' (JStr ''ios'')))"
  by code_simp

section \<open>The route\<close>

lemma review_loop_spec:
  "review_loop item acc rs = (first_raise item rs, acc @ kept_until item rs)"
  by (induction rs arbitrary: acc) (auto split: sum.splits option.splits)

lemma strip_Nil: "strip [] = []"
  by (simp add: strip_def)

text \<open>
  C9. A request whose \<open>source\<close> is none of \<open>hn\<close>, \<open>reddit\<close>, \<open>reviews\<close>, \<open>all\<close> gets
  status 200 with \<open>raw_count\<close> 0 and no idea, and the trace is unchanged: no harvester
  ran and the model was not called.
\<close>

theorem unknown_source_empty_success:
  assumes "map_of kvs ''source'' = Some s"
    and "s \<noteq> JStr ''hn''" and "s \<noteq> JStr ''reddit''"
    and "s \<noteq> JStr ''reviews''" and "s \<noteq> JStr ''all''"
  shows "generate e tr (JDict kvs) = (Reply 200 (Ideas 0 []), tr)"
proof -
  from assms(1) have "kvs \<noteq> []" by auto
  with assms show ?thesis
    by (simp add: generate_def reddit_stage_def reviews_stage_def analyze_def
        generate_business_ideas_def)
qed

theorem unknown_source_empty_success_witness:
  "generate fx_env [] (JDict [(''source'', JStr ''twitter'')]) = (Reply 200 (Ideas 0 []), [])"
  using unknown_source_empty_success
    [of "[(''source'', JStr ''twitter'')]" "JStr ''twitter''" fx_env "[]"]
  by simp

text \<open>
  C4. When \<open>find_app\<close> finds no app, \<open>scrape_reviews\<close> returns None, which is not
  the empty list. For a request of the review source with a name that is not blank:
  when \<open>find_app\<close> finds no app the route answers 404; when it finds one and the
  fetch leaves no record, \<open>scrape_reviews\<close> returns the empty list and the route
  answers 200 with \<open>raw_count\<close> 0.
\<close>

theorem app_not_found_is_404:
  "(find_app e tr name pref = (None, tr1) \<longrightarrow>
      scrape_reviews e tr name pref = (None, tr1) \<and>
      fst (scrape_reviews e tr name pref) \<noteq> Some []) \<and>
   (reviews_request kvs name pref \<and> find_app e tr name pref = (None, tr1) \<longrightarrow>
      generate e tr (JDict kvs) =
        (Reply 404 (ErrorMsg (''App '' @ [CHR 0x27] @ name @ [CHR 0x27] @ '' not found in ''
           @ fmt e pref @ '' store(s).'')), tr1)) \<and>
   (reviews_request kvs name pref \<and> find_app e tr name pref = (Some info, tr1) \<and>
    fetch_reviews e tr1 info = (raised, [], tr2) \<longrightarrow>
      scrape_reviews e tr name pref = (Some [], tr2) \<and>
      generate e tr (JDict kvs) = (Reply 200 (Ideas 0 []), tr2))"
proof (intro conjI impI)
  assume "find_app e tr name pref = (None, tr1)"
  then show "scrape_reviews e tr name pref = (None, tr1)"
    and "fst (scrape_reviews e tr name pref) \<noteq> Some []"
    by (simp_all add: scrape_reviews_def)
next
  assume h: "reviews_request kvs name pref \<and> find_app e tr name pref = (None, tr1)"
  then have ne: "kvs \<noteq> []" and n: "name \<noteq> []"
    using strip_Nil by (auto simp: reviews_request_def)
  with h show "generate e tr (JDict kvs) =
        (Reply 404 (ErrorMsg (''App '' @ [CHR 0x27] @ name @ [CHR 0x27] @ '' not found in ''
           @ fmt e pref @ '' store(s).'')), tr1)"
    by (auto simp: reviews_request_def generate_def reddit_stage_def reviews_stage_def
        scrape_reviews_def fmt_def split: option.splits)
next
  assume h: "reviews_request kvs name pref \<and> find_app e tr name pref = (Some info, tr1) \<and>
    fetch_reviews e tr1 info = (raised, [], tr2)"
  then have ne: "kvs \<noteq> []" and n: "name \<noteq> []"
    using strip_Nil by (auto simp: reviews_request_def)
  from h show "scrape_reviews e tr name pref = (Some [], tr2)"
    by (simp add: scrape_reviews_def)
  from h ne n show "generate e tr (JDict kvs) = (Reply 200 (Ideas 0 []), tr2)"
    by (auto simp: reviews_request_def generate_def reddit_stage_def reviews_stage_def
        analyze_def generate_business_ideas_def scrape_reviews_def fmt_def split: option.splits)
qed

theorem app_not_found_is_404_witness:
  "generate fx_ios_no_app [] (JDict fx_reviews_request) =
     (Reply 404 (ErrorMsg (''App '' @ [CHR 0x27] @ ''notion'' @ [CHR 0x27]
        @ '' not found in ios store(s).'')),
      [NetGet (ios_search_request ''notion'')]) \<and>
   scrape_reviews fx_ios_no_app [] ''notion'' (JStr ''ios'') =
     (None, [NetGet (ios_search_request ''notion'')]) \<and>
   generate fx_ios_no_reviews [] (JDict fx_reviews_request) =
     (Reply 200 (Ideas 0 []),
      [NetGet (ios_search_request ''notion''), NetGet (plain_get fx_ios_feed_url [])])"
proof -
  have rq: "reviews_request fx_reviews_request ''notion'' (JStr ''ios'')"
    unfolding reviews_request_def by (intro conjI; code_simp)
  have f1: "find_app fx_ios_no_app [] ''notion'' (JStr ''ios'') =
      (None, [NetGet (ios_search_request ''notion'')])"
    by code_simp
  have f2: "find_app fx_ios_no_reviews [] ''notion'' (JStr ''ios'') =
      (Some fx_notion, [NetGet (ios_search_request ''notion'')])"
    by code_simp
  have f3: "fetch_reviews fx_ios_no_reviews [NetGet (ios_search_request ''notion'')] fx_notion =
      (None, [], [NetGet (ios_search_request ''notion''), NetGet (plain_get fx_ios_feed_url [])])"
    by code_simp
  have f4: "fmt fx_ios_no_app (JStr ''ios'') = ''ios''" by (simp add: fmt_def)
  from app_not_found_is_404
         [of fx_ios_no_app "[]" "''notion''" "JStr ''ios''" "[NetGet (ios_search_request ''notion'')]"
             fx_reviews_request]
       rq f1 f4
  have g1: "generate fx_ios_no_app [] (JDict fx_reviews_request) =
     (Reply 404 (ErrorMsg (''App '' @ [CHR 0x27] @ ''notion'' @ [CHR 0x27]
        @ '' not found in ios store(s).'')),
      [NetGet (ios_search_request ''notion'')])"
    and g0: "scrape_reviews fx_ios_no_app [] ''notion'' (JStr ''ios'') =
     (None, [NetGet (ios_search_request ''notion'')])"
    by simp_all
  from app_not_found_is_404
         [of fx_ios_no_reviews "[]" "''notion''" "JStr ''ios''" "[NetGet (ios_search_request ''notion'')]"
             fx_reviews_request fx_notion None
             "[NetGet (ios_search_request ''notion''), NetGet (plain_get fx_ios_feed_url [])]"]
       rq f2 f3
  have g2: "generate fx_ios_no_reviews [] (JDict fx_reviews_request) =
     (Reply 200 (Ideas 0 []),
      [NetGet (ios_search_request ''notion''), NetGet (plain_get fx_ios_feed_url [])])"
    by blast
  from g1 g0 g2 show ?thesis by simp
qed

text \<open>
  A name that \<open>strip\<close> empties never reaches the harvester: the route answers 400 and
  the trace is unchanged. The no-break space is such a name.
\<close>

lemma strip_latin1_spaces: "strip [CHR 0xA0, CHR 0x85, CHR 0x1C, CHR 0x09, CHR '' ''] = []"
  by code_simp

lemma blank_app_name_is_400:
  assumes "map_of kvs ''source'' = Some (JStr ''reviews'')"
    and "map_of kvs ''app_name'' = Some (JStr name)"
    and "strip name = []"
  shows "generate e tr (JDict kvs) =
     (Reply 400 (ErrorMsg ''App Name cannot be empty for Reviews source''), tr)"
proof -
  from assms(1) have "kvs \<noteq> []" by auto
  with assms show ?thesis
    by (auto simp: generate_def reddit_stage_def reviews_stage_def split: option.splits)
qed

lemma nbsp_app_name_is_400:
  "generate fx_ios_no_app []
     (JDict [(''source'', JStr ''reviews''), (''app_name'', JStr [CHR 0xA0])]) =
     (Reply 400 (ErrorMsg ''App Name cannot be empty for Reviews source''), [])"
proof -
  have s: "strip [CHR 0xA0] = []" by code_simp
  show ?thesis
    by (rule blank_app_name_is_400[where name = "[CHR 0xA0]"]) (simp_all add: s)
qed

section \<open>The feed harvester\<close>

lemma reddit_posts_spec:
  "reddit_posts e s acc ps =
     (first_raise (reddit_post e s) ps, acc @ kept_until (reddit_post e s) ps)"
  by (induction ps arbitrary: acc) (auto split: sum.splits option.splits)

lemma reddit_attempt_trace:
  "snd (snd (reddit_attempt e tr s acc)) = tr @ [NetGet (reddit_request e tr s)]"
  by (auto simp: reddit_attempt_def reddit_request_def Let_def split: sum.splits prod.splits option.splits)

lemma reddit_attempt_acc:
  "reddit_attempt e tr s acc =
     (case reddit_attempt e tr s [] of (ok, new, tr1) \<Rightarrow> (ok, acc @ new, tr1))"
  by (auto simp: reddit_attempt_def reddit_posts_spec Let_def split: sum.splits prod.splits option.splits)

lemma reddit_attempt_ok_iff:
  "fst (reddit_attempt e tr s acc) \<longleftrightarrow>
     (\<exists>resp posts. http_get e tr (reddit_request e tr s) = Inr resp \<and> status_code resp = 200 \<and>
        reddit_children resp = Inr posts \<and> first_raise (reddit_post e s) posts = None)"
  by (auto simp: reddit_attempt_def reddit_request_def reddit_posts_spec Let_def split: sum.splits prod.splits option.splits)

lemma reddit_attempt_ok_items:
  "http_get e tr (reddit_request e tr s) = Inr resp \<Longrightarrow> status_code resp = 200 \<Longrightarrow>
   reddit_children resp = Inr posts \<Longrightarrow> first_raise (reddit_post e s) posts = None \<Longrightarrow>
   reddit_attempt e tr s acc =
     (True, acc @ kept_until (reddit_post e s) posts, tr @ [NetGet (reddit_request e tr s)])"
  by (auto simp: reddit_attempt_def reddit_request_def reddit_posts_spec Let_def split: sum.splits prod.splits option.splits)

lemma retry_past: "attempts < k \<Longrightarrow> reddit_retry e tr s k acc = (False, acc, tr)"
  by (subst reddit_retry.simps) simp

lemma retry_ok:
  "k \<le> attempts \<Longrightarrow> fst (reddit_attempt e tr s acc) \<Longrightarrow>
   reddit_retry e tr s k acc = reddit_attempt e tr s acc"
  by (subst reddit_retry.simps) (auto split: prod.splits)

lemma retry_fail:
  "k \<le> attempts \<Longrightarrow> \<not> fst (reddit_attempt e tr s acc) \<Longrightarrow>
   reddit_retry e tr s k acc =
     reddit_retry e (if k < attempts then snd (snd (reddit_attempt e tr s acc)) @ [Sleep]
                     else snd (snd (reddit_attempt e tr s acc)))
       s (Suc k) (fst (snd (reddit_attempt e tr s acc)))"
  by (subst reddit_retry.simps) (auto split: prod.splits)

lemma retry_trace_from:
  "k \<le> attempts \<Longrightarrow>
   \<exists>reqs. snd (snd (reddit_retry e tr s k acc)) = tr @ intersperse Sleep (map NetGet reqs) \<and>
          1 \<le> length reqs \<and> length reqs \<le> Suc attempts - k \<and>
          (\<forall>r \<in> set reqs. req_url r = reddit_url s) \<and>
          (\<not> fst (reddit_retry e tr s k acc) \<longrightarrow> length reqs = Suc attempts - k)"
proof (induction n \<equiv> "attempts - k" arbitrary: k tr acc)
  case 0
  then have k: "k = attempts" by simp
  let ?req = "reddit_request e tr s"
  have u: "req_url ?req = reddit_url s" by (simp add: reddit_request_def plain_get_def)
  have "snd (snd (reddit_retry e tr s k acc)) = tr @ [NetGet ?req]"
  proof (cases "fst (reddit_attempt e tr s acc)")
    case True
    with 0(2) show ?thesis by (simp add: retry_ok reddit_attempt_trace)
  next
    case False
    with 0(2) k show ?thesis by (simp add: retry_fail retry_past reddit_attempt_trace)
  qed
  with u k show ?case by (intro exI[of _ "[?req]"]) auto
next
  case (Suc n)
  then have lt: "k < attempts" and le: "Suc k \<le> attempts" and n: "n = attempts - Suc k" by auto
  let ?req = "reddit_request e tr s"
  have u: "req_url ?req = reddit_url s" by (simp add: reddit_request_def plain_get_def)
  show ?case
  proof (cases "fst (reddit_attempt e tr s acc)")
    case True
    with Suc(3) have eq: "reddit_retry e tr s k acc = reddit_attempt e tr s acc" by (rule retry_ok)
    then have "snd (snd (reddit_retry e tr s k acc)) = tr @ intersperse Sleep (map NetGet [?req])"
      by (simp add: reddit_attempt_trace)
    with u lt True eq show ?thesis by (intro exI[of _ "[?req]"]) auto
  next
    case False
    let ?tr1 = "tr @ [NetGet ?req] @ [Sleep]"
    let ?acc1 = "fst (snd (reddit_attempt e tr s acc))"
    from retry_fail[OF Suc(3) False] lt
    have eq: "reddit_retry e tr s k acc = reddit_retry e ?tr1 s (Suc k) ?acc1"
      by (simp add: reddit_attempt_trace)
    from Suc(1)[OF n le, of ?tr1 ?acc1] obtain reqs where
      r: "snd (snd (reddit_retry e ?tr1 s (Suc k) ?acc1)) = ?tr1 @ intersperse Sleep (map NetGet reqs)"
         "1 \<le> length reqs" "length reqs \<le> Suc attempts - Suc k"
         "\<forall>r \<in> set reqs. req_url r = reddit_url s"
         "\<not> fst (reddit_retry e ?tr1 s (Suc k) ?acc1) \<longrightarrow> length reqs = Suc attempts - Suc k"
      by blast
    from r(2) obtain q qs where qs: "reqs = q # qs" by (cases reqs) auto
    have "snd (snd (reddit_retry e tr s k acc)) = tr @ intersperse Sleep (map NetGet (?req # reqs))"
      using eq r(1) qs by simp
    moreover have "length (?req # reqs) \<le> Suc attempts - k" using r(3) lt by simp
    moreover have "\<not> fst (reddit_retry e tr s k acc) \<longrightarrow> length (?req # reqs) = Suc attempts - k"
      using r(5) eq lt by auto
    ultimately show ?thesis using r(4) u
      by (intro exI[of _ "?req # reqs"]) auto
  qed
qed

lemma retry_acc:
  "reddit_retry e tr s k acc =
     (case reddit_retry e tr s k [] of (ok, new, tr1) \<Rightarrow> (ok, acc @ new, tr1))"
proof (induction n \<equiv> "Suc attempts - k" arbitrary: k tr acc)
  case 0
  then have "attempts < k" by simp
  then show ?case by (simp add: retry_past)
next
  case (Suc n)
  then have le: "k \<le> attempts" and n: "n = Suc attempts - Suc k" by auto
  obtain ok new tr1 where a0: "reddit_attempt e tr s [] = (ok, new, tr1)"
    by (cases "reddit_attempt e tr s []") auto
  then have a: "reddit_attempt e tr s acc = (ok, acc @ new, tr1)"
    by (subst reddit_attempt_acc) simp
  show ?case
  proof (cases ok)
    case True
    with a a0 le show ?thesis by (simp add: retry_ok)
  next
    case False
    let ?t = "if k < attempts then tr1 @ [Sleep] else tr1"
    from False a le have l: "reddit_retry e tr s k acc = reddit_retry e ?t s (Suc k) (acc @ new)"
      by (simp add: retry_fail)
    from False a0 le have r: "reddit_retry e tr s k [] = reddit_retry e ?t s (Suc k) new"
      by (simp add: retry_fail)
    have l': "reddit_retry e ?t s (Suc k) (acc @ new) =
        (case reddit_retry e ?t s (Suc k) [] of (ok, new', tr1) \<Rightarrow> (ok, (acc @ new) @ new', tr1))"
      by (rule Suc(1)[OF n])
    have r': "reddit_retry e ?t s (Suc k) new =
        (case reddit_retry e ?t s (Suc k) [] of (ok, new', tr1) \<Rightarrow> (ok, new @ new', tr1))"
      by (rule Suc(1)[OF n])
    show ?thesis
      unfolding l r l' r' by (auto split: prod.splits)
  qed
qed

lemma retry_success:
  "k \<le> attempts \<Longrightarrow> fst (reddit_retry e tr s k acc) \<Longrightarrow>
   \<exists>tk earlier resp posts.
      snd (snd (reddit_retry e tr s k acc)) = tk @ [NetGet (reddit_request e tk s)] \<and>
      http_get e tk (reddit_request e tk s) = Inr resp \<and> status_code resp = 200 \<and>
      reddit_children resp = Inr posts \<and> first_raise (reddit_post e s) posts = None \<and>
      fst (snd (reddit_retry e tr s k acc)) = acc @ earlier @ kept_until (reddit_post e s) posts"
proof (induction n \<equiv> "attempts - k" arbitrary: k tr acc)
  case 0
  show ?case
  proof (cases "fst (reddit_attempt e tr s acc)")
    case True
    then obtain resp posts where h: "http_get e tr (reddit_request e tr s) = Inr resp"
      "status_code resp = 200" "reddit_children resp = Inr posts"
      "first_raise (reddit_post e s) posts = None"
      unfolding reddit_attempt_ok_iff by blast
    from retry_ok[OF 0(2) True] reddit_attempt_ok_items[OF h, of acc] h
    show ?thesis by (intro exI[of _ tr] exI[of _ "[]"] exI[of _ resp] exI[of _ posts]) simp
  next
    case False
    with 0 have "reddit_retry e tr s k acc = (False, fst (snd (reddit_attempt e tr s acc)),
         snd (snd (reddit_attempt e tr s acc)))"
      by (simp add: retry_fail retry_past)
    with 0(3) show ?thesis by simp
  qed
next
  case (Suc n)
  then have lt: "k < attempts" and le: "Suc k \<le> attempts" and n: "n = attempts - Suc k" by auto
  show ?case
  proof (cases "fst (reddit_attempt e tr s acc)")
    case True
    then obtain resp posts where h: "http_get e tr (reddit_request e tr s) = Inr resp"
      "status_code resp = 200" "reddit_children resp = Inr posts"
      "first_raise (reddit_post e s) posts = None"
      unfolding reddit_attempt_ok_iff by blast
    from retry_ok[OF Suc(3) True] reddit_attempt_ok_items[OF h, of acc] h
    show ?thesis by (intro exI[of _ tr] exI[of _ "[]"] exI[of _ resp] exI[of _ posts]) simp
  next
    case False
    let ?tr1 = "snd (snd (reddit_attempt e tr s acc)) @ [Sleep]"
    let ?acc1 = "fst (snd (reddit_attempt e tr s acc))"
    from retry_fail[OF Suc(3) False] lt
    have eq: "reddit_retry e tr s k acc = reddit_retry e ?tr1 s (Suc k) ?acc1" by simp
    have "?acc1 = acc @ fst (snd (reddit_attempt e tr s []))"
      using reddit_attempt_acc[of e tr s acc] by (auto split: prod.splits)
    then obtain new where new: "?acc1 = acc @ new" ..
    from Suc(1)[OF n le, of ?tr1 ?acc1] Suc(4) eq
    obtain tk earlier resp posts where
      "snd (snd (reddit_retry e ?tr1 s (Suc k) ?acc1)) = tk @ [NetGet (reddit_request e tk s)]"
      "http_get e tk (reddit_request e tk s) = Inr resp" "status_code resp = 200"
      "reddit_children resp = Inr posts" "first_raise (reddit_post e s) posts = None"
      "fst (snd (reddit_retry e ?tr1 s (Suc k) ?acc1)) = ?acc1 @ earlier @ kept_until (reddit_post e s) posts"
      by auto
    with eq new show ?thesis
      by (intro exI[of _ tk] exI[of _ "new @ earlier"] exI[of _ resp] exI[of _ posts]) simp
  qed
qed

lemma subs_acc:
  "reddit_subs e tr acc subs =
     (case reddit_subs e tr [] subs of
        (Inl x, tr1) \<Rightarrow> (Inl x, tr1)
      | (Inr new, tr1) \<Rightarrow> (Inr (acc @ new), tr1))"
proof (induction subs arbitrary: tr acc)
  case Nil
  show ?case by simp
next
  case (Cons sub rest)
  show ?case
  proof (cases "py_strip sub")
    case (Inl x)
    then show ?thesis by simp
  next
    case (Inr clean)
    obtain ok tr1 where g: "is_safe_url e tr (reddit_url clean) = (ok, tr1)"
      by (cases "is_safe_url e tr (reddit_url clean)") auto
    show ?thesis
    proof (cases ok)
      case False
      with Inr g show ?thesis by (simp add: Cons.IH[of tr1 acc])
    next
      case True
      obtain success new tr2 where r0: "reddit_retry e tr1 clean 1 [] = (success, new, tr2)"
        by (cases "reddit_retry e tr1 clean 1 []") auto
      then have r: "reddit_retry e tr1 clean 1 acc = (success, acc @ new, tr2)"
        by (subst retry_acc) simp
      have l: "reddit_subs e tr acc (sub # rest) = reddit_subs e tr2 (acc @ new) rest"
        using Inr g True r by simp
      have r2: "reddit_subs e tr [] (sub # rest) = reddit_subs e tr2 new rest"
        using Inr g True r0 by simp
      have l': "reddit_subs e tr2 (acc @ new) rest =
          (case reddit_subs e tr2 [] rest of
             (Inl x, tr1) \<Rightarrow> (Inl x, tr1)
           | (Inr new', tr1) \<Rightarrow> (Inr ((acc @ new) @ new'), tr1))"
        by (rule Cons.IH)
      have r2': "reddit_subs e tr2 new rest =
          (case reddit_subs e tr2 [] rest of
             (Inl x, tr1) \<Rightarrow> (Inl x, tr1)
           | (Inr new', tr1) \<Rightarrow> (Inr (new @ new'), tr1))"
        by (rule Cons.IH)
      show ?thesis
        unfolding l r2 l' r2' by (auto split: prod.splits sum.splits)
    qed
  qed
qed

lemma subs_append:
  "reddit_subs e tr acc (xs @ ys) =
     (case reddit_subs e tr acc xs of
        (Inl x, tr1) \<Rightarrow> (Inl x, tr1)
      | (Inr acc1, tr1) \<Rightarrow> reddit_subs e tr1 acc1 ys)"
  by (induction xs arbitrary: tr acc) (auto split: sum.splits prod.splits bool.splits)

lemma subs_strings:
  "\<exists>opps tr'. reddit_subs e tr acc (map JStr ns) = (Inr opps, tr')"
  by (induction ns arbitrary: tr acc) (auto split: sum.splits prod.splits bool.splits)

lemma hf_gate:
  assumes "history_free e"
  shows "fst (is_safe_url e tr u) = fst (is_safe_url e [] u)"
proof -
  have d: "gethostbyname_ex e tr = gethostbyname_ex e []"
    using assms unfolding history_free_def by blast
  show ?thesis
    unfolding is_safe_url_def is_safe_url_try_def Let_def d
    by (auto split: sum.splits option.splits prod.splits)
qed

lemma hf_request:
  assumes "history_free e"
  shows "reddit_request e tr s = reddit_request e [] s"
proof -
  have "random_choice e tr = random_choice e []"
    using assms unfolding history_free_def by blast
  then show ?thesis by (simp add: reddit_request_def)
qed

lemma hf_attempt:
  assumes "history_free e"
  shows "fst (reddit_attempt e tr s acc) = fst (reddit_attempt e [] s acc)"
    and "fst (snd (reddit_attempt e tr s acc)) = fst (snd (reddit_attempt e [] s acc))"
proof -
  have h: "http_get e tr = http_get e []" "random_choice e tr = random_choice e []"
    using assms unfolding history_free_def by blast+
  show "fst (reddit_attempt e tr s acc) = fst (reddit_attempt e [] s acc)"
    unfolding reddit_attempt_def Let_def h
    by (auto split: sum.splits prod.splits option.splits)
  show "fst (snd (reddit_attempt e tr s acc)) = fst (snd (reddit_attempt e [] s acc))"
    unfolding reddit_attempt_def Let_def h
    by (auto split: sum.splits prod.splits option.splits)
qed

lemma hf_retry:
  assumes hf: "history_free e"
  shows "fst (reddit_retry e tr s k acc) = fst (reddit_retry e tr' s k acc) \<and>
         fst (snd (reddit_retry e tr s k acc)) = fst (snd (reddit_retry e tr' s k acc))"
proof (induction n \<equiv> "Suc attempts - k" arbitrary: k tr tr' acc)
  case 0
  then have "attempts < k" by simp
  then show ?case by (simp add: retry_past)
next
  case (Suc n)
  then have le: "k \<le> attempts" and n: "n = Suc attempts - Suc k" by auto
  have a: "fst (reddit_attempt e tr s acc) = fst (reddit_attempt e tr' s acc)"
    "fst (snd (reddit_attempt e tr s acc)) = fst (snd (reddit_attempt e tr' s acc))"
    using hf_attempt[OF hf, of tr s acc] hf_attempt[OF hf, of tr' s acc] by auto
  show ?case
  proof (cases "fst (reddit_attempt e tr s acc)")
    case True
    with a le show ?thesis by (simp add: retry_ok)
  next
    case False
    with a have F': "\<not> fst (reddit_attempt e tr' s acc)" by simp
    show ?thesis
      unfolding retry_fail[OF le False] retry_fail[OF le F'] a(2)
      by (rule Suc(1)[OF n])
  qed
qed

lemma hf_subs:
  assumes hf: "history_free e"
  shows "fst (reddit_subs e tr acc subs) = fst (reddit_subs e tr' acc subs)"
proof (induction subs arbitrary: tr tr' acc)
  case Nil
  show ?case by simp
next
  case (Cons sub rest)
  show ?case
  proof (cases "py_strip sub")
    case (Inl x)
    then show ?thesis by simp
  next
    case (Inr clean)
    obtain ok t1 where g: "is_safe_url e tr (reddit_url clean) = (ok, t1)"
      by (cases "is_safe_url e tr (reddit_url clean)") auto
    obtain ok' t1' where g': "is_safe_url e tr' (reddit_url clean) = (ok', t1')"
      by (cases "is_safe_url e tr' (reddit_url clean)") auto
    from hf_gate[OF hf, of tr "reddit_url clean"] hf_gate[OF hf, of tr' "reddit_url clean"] g g'
    have ok: "ok' = ok" by simp
    show ?thesis
    proof (cases ok)
      case False
      with Inr g g' ok show ?thesis by (simp add: Cons.IH[of t1 acc t1'])
    next
      case True
      obtain su opps t2 where r: "reddit_retry e t1 clean 1 acc = (su, opps, t2)"
        by (cases "reddit_retry e t1 clean 1 acc") auto
      obtain su' opps' t2' where r': "reddit_retry e t1' clean 1 acc = (su', opps', t2')"
        by (cases "reddit_retry e t1' clean 1 acc") auto
      from hf_retry[OF hf, of t1 clean 1 acc t1'] r r' have "opps' = opps" by simp
      with Inr g g' ok True r r' show ?thesis by (simp add: Cons.IH[of t2 opps t2'])
    qed
  qed
qed

lemma hf_concat:
  assumes hf: "history_free e"
  shows "fst (reddit_subs e tr [] (map JStr ns)) =
           Inr (concat (map (\<lambda>n. harvested (fst (reddit_subs e [] [] [JStr n]))) ns))"
proof (induction ns arbitrary: tr)
  case Nil
  show ?case by simp
next
  case (Cons n ns)
  obtain a t1 where one: "reddit_subs e tr [] [JStr n] = (Inr a, t1)"
    using subs_strings[of e tr "[]" "[n]"] by auto
  obtain rest t2 where more: "reddit_subs e t1 [] (map JStr ns) = (Inr rest, t2)"
    using subs_strings[of e t1 "[]" ns] by auto
  have "reddit_subs e tr [] (map JStr (n # ns)) = reddit_subs e t1 a (map JStr ns)"
    using subs_append[of e tr "[]" "[JStr n]" "map JStr ns"] one by simp
  also have "\<dots> = (Inr (a @ rest), t2)"
    using more by (subst subs_acc) simp
  finally have "fst (reddit_subs e tr [] (map JStr (n # ns))) = Inr (a @ rest)" by simp
  moreover have "a = harvested (fst (reddit_subs e [] [] [JStr n]))"
  proof -
    have eq: "fst (reddit_subs e tr [] [JStr n]) = fst (reddit_subs e [] [] [JStr n])"
      by (rule hf_subs[OF hf])
    have "fst (reddit_subs e tr [] [JStr n]) = Inr a"
      by (simp only: one fst_conv)
    with eq have "fst (reddit_subs e [] [] [JStr n]) = Inr a"
      by (simp only:)
    then show ?thesis by (simp only: harvested_def sum.case)
  qed
  moreover have "Inr rest = Inr (concat (map (\<lambda>n. harvested (fst (reddit_subs e [] [] [JStr n]))) ns))"
    using Cons.IH[of t1] more by simp
  ultimately show ?case by simp
qed









text \<open>
  C5. For every list of community names: the harvest returns a list (it does not
  raise). The harvest of a list is the harvest of the communities before \<open>b\<close>, then
  the harvest of \<open>b\<close> alone, then the harvest of those after it, the records
  concatenated: what \<open>b\<close> contributes is what its own harvest returns, whatever
  became of the others, so the records of a community that succeeds are in the result
  when another one failed on all its attempts. In a world that answers the same at
  every moment the result is the concatenation of the harvests of the single
  communities, each run on its own from the empty trace.
\<close>

theorem reddit_isolation:
  "(\<exists>opps tr'. scrape_reddit_rss e tr (JList (map JStr ns)) = (Inr opps, tr')) \<and>
   scrape_reddit_rss e tr (JList (map JStr (pre @ b # post))) =
      (case scrape_reddit_rss e tr (JList (map JStr pre)) of (r1, t1) \<Rightarrow>
       case scrape_reddit_rss e t1 (JList [JStr b]) of (r2, t2) \<Rightarrow>
       case scrape_reddit_rss e t2 (JList (map JStr post)) of (r3, t3) \<Rightarrow>
         (Inr (harvested r1 @ harvested r2 @ harvested r3), t3)) \<and>
   (history_free e \<longrightarrow>
      fst (scrape_reddit_rss e tr (JList (map JStr ns))) =
        Inr (concat (map (\<lambda>n. harvested (fst (scrape_reddit_rss e [] (JList [JStr n])))) ns)))"
proof (intro conjI impI)
  show "\<exists>opps tr'. scrape_reddit_rss e tr (JList (map JStr ns)) = (Inr opps, tr')"
    using subs_strings[of e tr "[]" ns] by (simp add: scrape_reddit_rss_def)
  show "scrape_reddit_rss e tr (JList (map JStr (pre @ b # post))) =
      (case scrape_reddit_rss e tr (JList (map JStr pre)) of (r1, t1) \<Rightarrow>
       case scrape_reddit_rss e t1 (JList [JStr b]) of (r2, t2) \<Rightarrow>
       case scrape_reddit_rss e t2 (JList (map JStr post)) of (r3, t3) \<Rightarrow>
         (Inr (harvested r1 @ harvested r2 @ harvested r3), t3))"
  proof -
    obtain a1 t1 where p1: "reddit_subs e tr [] (map JStr pre) = (Inr a1, t1)"
      using subs_strings[of e tr "[]" pre] by auto
    obtain a2 t2 where p2: "reddit_subs e t1 [] [JStr b] = (Inr a2, t2)"
      using subs_strings[of e t1 "[]" "[b]"] by auto
    obtain a3 t3 where p3: "reddit_subs e t2 [] (map JStr post) = (Inr a3, t3)"
      using subs_strings[of e t2 "[]" post] by auto
    have "reddit_subs e tr [] (map JStr (pre @ b # post)) =
            reddit_subs e t1 a1 ([JStr b] @ map JStr post)"
      using subs_append[of e tr "[]" "map JStr pre" "JStr b # map JStr post"] p1 by simp
    also have "\<dots> = reddit_subs e t2 (a1 @ a2) (map JStr post)"
    proof -
      have "reddit_subs e t1 a1 [JStr b] = (Inr (a1 @ a2), t2)"
        using p2 by (subst subs_acc) simp
      then show ?thesis
        using subs_append[of e t1 a1 "[JStr b]" "map JStr post"] by simp
    qed
    also have "\<dots> = (Inr ((a1 @ a2) @ a3), t3)"
      using p3 by (subst subs_acc) simp
    finally show ?thesis
      using p1 p2 p3 by (simp add: scrape_reddit_rss_def harvested_def)
  qed
next
  assume "history_free e"
  then show "fst (scrape_reddit_rss e tr (JList (map JStr ns))) =
        Inr (concat (map (\<lambda>n. harvested (fst (scrape_reddit_rss e [] (JList [JStr n])))) ns))"
    using hf_concat[of e tr ns] by (simp add: scrape_reddit_rss_def)
qed

theorem reddit_isolation_witness:
  "fst (scrape_reddit_rss fx_ab_env [] (JList [JStr ''a'', JStr ''b''])) =
     Inr [\<lparr>opp_id = JStr ''b1'', opp_text = ''[Reddit r/b] I wish this existed - details'',
           opp_url = JStr ''https://reddit.com/r/x/b1'', opp_source = ''Reddit r/b''\<rparr>,
          \<lparr>opp_id = JStr ''b2'', opp_text = ''[Reddit r/b] Why is billing so hard to set up - details'',
           opp_url = JStr ''https://reddit.com/r/x/b2'', opp_source = ''Reddit r/b''\<rparr>] \<and>
   net_urls (snd (scrape_reddit_rss fx_ab_env [] (JList [JStr ''a'', JStr ''b'']))) =
     [reddit_url ''a'', reddit_url ''a'', reddit_url ''a'', reddit_url ''b'']"
proof -
  have hf: "history_free fx_ab_env"
    by (simp add: history_free_def fx_ab_env_def fx_env_def fx_http_def fx_dns_def)
  have a: "harvested (fst (scrape_reddit_rss fx_ab_env [] (JList [JStr ''a'']))) = []"
    by code_simp
  have b: "harvested (fst (scrape_reddit_rss fx_ab_env [] (JList [JStr ''b'']))) =
     [\<lparr>opp_id = JStr ''b1'', opp_text = ''[Reddit r/b] I wish this existed - details'',
           opp_url = JStr ''https://reddit.com/r/x/b1'', opp_source = ''Reddit r/b''\<rparr>,
          \<lparr>opp_id = JStr ''b2'', opp_text = ''[Reddit r/b] Why is billing so hard to set up - details'',
           opp_url = JStr ''https://reddit.com/r/x/b2'', opp_source = ''Reddit r/b''\<rparr>]"
    by code_simp
  have n: "net_urls (snd (scrape_reddit_rss fx_ab_env [] (JList [JStr ''a'', JStr ''b'']))) =
     [reddit_url ''a'', reddit_url ''a'', reddit_url ''a'', reddit_url ''b'']"
    by code_simp
  from reddit_isolation[of fx_ab_env "[]" "[''a'', ''b'']"] hf a b n
  show ?thesis by simp
qed

section \<open>Source selection\<close>

text \<open>
  C7. A request with source \<open>reddit\<close> and an empty community list (or none) is
  answered 400 and the trace is unchanged: no harvester ran and nothing was
  substituted. A request with source \<open>all\<close> and no community list runs the API
  harvester and then the feed harvester on the default list \<open>SaaS\<close>, \<open>startups\<close>,
  which returns a list, and goes on to the analysis of what the two collected.
\<close>

theorem reddit_source_needs_communities:
  "(map_of kvs ''source'' = Some (JStr ''reddit'') \<and>
    (map_of kvs ''subreddits'' = None \<or> map_of kvs ''subreddits'' = Some (JList [])) \<longrightarrow>
      generate e tr (JDict kvs) =
        (Reply 400 (ErrorMsg ''Subreddits list cannot be empty for Reddit source''), tr)) \<and>
   (map_of kvs ''source'' = Some (JStr ''all'') \<and> map_of kvs ''subreddits'' = None \<longrightarrow>
      (\<exists>found tr1 items tr2.
         scrape_hn_opportunities e tr 20 = (found, tr1) \<and>
         scrape_reddit_rss e tr1 (JList [JStr ''SaaS'', JStr ''startups'']) = (Inr items, tr2) \<and>
         generate e tr (JDict kvs) = analyze e tr2 (found @ items)))"
proof (intro conjI impI)
  assume h: "map_of kvs ''source'' = Some (JStr ''reddit'') \<and>
    (map_of kvs ''subreddits'' = None \<or> map_of kvs ''subreddits'' = Some (JList []))"
  then have "kvs \<noteq> []" by auto
  with h show "generate e tr (JDict kvs) =
        (Reply 400 (ErrorMsg ''Subreddits list cannot be empty for Reddit source''), tr)"
    by (auto simp: generate_def reddit_stage_def)
next
  assume h: "map_of kvs ''source'' = Some (JStr ''all'') \<and> map_of kvs ''subreddits'' = None"
  then have ne: "kvs \<noteq> []" by auto
  obtain found tr1 where hn: "scrape_hn_opportunities e tr 20 = (found, tr1)"
    by (cases "scrape_hn_opportunities e tr 20") auto
  obtain items tr2 where
    rd: "scrape_reddit_rss e tr1 (JList (map JStr [''SaaS'', ''startups''])) = (Inr items, tr2)"
    using subs_strings[of e tr1 "[]" "[''SaaS'', ''startups'']"]
    by (auto simp only: scrape_reddit_rss_def py_iter.simps sum.case)
  then have rd': "scrape_reddit_rss e tr1 (JList [JStr ''SaaS'', JStr ''startups'']) = (Inr items, tr2)"
    by (simp only: list.map)
  have "generate e tr (JDict kvs) = analyze e tr2 (found @ items)"
    using h ne hn rd'
    by (simp add: generate_def reddit_stage_def reviews_stage_def)
  with hn rd' show "\<exists>found tr1 items tr2.
         scrape_hn_opportunities e tr 20 = (found, tr1) \<and>
         scrape_reddit_rss e tr1 (JList [JStr ''SaaS'', JStr ''startups'']) = (Inr items, tr2) \<and>
         generate e tr (JDict kvs) = analyze e tr2 (found @ items)"
    by blast
qed

theorem reddit_source_needs_communities_witness:
  "generate fx_env [] (JDict [(''source'', JStr ''reddit''), (''subreddits'', JList [])]) =
     (Reply 400 (ErrorMsg ''Subreddits list cannot be empty for Reddit source''), []) \<and>
   fst (generate fx_env [] (JDict [(''source'', JStr ''all'')])) = Reply 200 (Ideas 0 []) \<and>
   net_urls (snd (generate fx_env [] (JDict [(''source'', JStr ''all'')]))) =
     [hn_list_url, reddit_url ''SaaS'', reddit_url ''SaaS'', reddit_url ''SaaS'',
      reddit_url ''startups'', reddit_url ''startups'', reddit_url ''startups'']"
proof -
  have a: "generate fx_env [] (JDict [(''source'', JStr ''reddit''), (''subreddits'', JList [])]) =
     (Reply 400 (ErrorMsg ''Subreddits list cannot be empty for Reddit source''), [])"
    using reddit_source_needs_communities
      [of "[(''source'', JStr ''reddit''), (''subreddits'', JList [])]" fx_env "[]"]
    by simp
  obtain found tr1 items tr2 where
    h: "scrape_hn_opportunities fx_env [] 20 = (found, tr1)"
       "scrape_reddit_rss fx_env tr1 (JList [JStr ''SaaS'', JStr ''startups'']) = (Inr items, tr2)"
       "generate fx_env [] (JDict [(''source'', JStr ''all'')]) = analyze fx_env tr2 (found @ items)"
    using reddit_source_needs_communities [of "[(''source'', JStr ''all'')]" fx_env "[]"]
    by auto
  have f: "fst (scrape_hn_opportunities fx_env [] 20) = []" by code_simp
  have i: "fst (scrape_reddit_rss fx_env (snd (scrape_hn_opportunities fx_env [] 20))
             (JList [JStr ''SaaS'', JStr ''startups''])) = Inr []"
    by code_simp
  from h(1) f have found: "found = []" by simp
  from h(1) have "tr1 = snd (scrape_hn_opportunities fx_env [] 20)" by simp
  with h(2) i have items: "items = []" by simp
  from h(3) found items
  have b: "fst (generate fx_env [] (JDict [(''source'', JStr ''all'')])) = Reply 200 (Ideas 0 [])"
    by (simp add: analyze_def generate_business_ideas_def)
  have c: "net_urls (snd (generate fx_env [] (JDict [(''source'', JStr ''all'')]))) =
     [hn_list_url, reddit_url ''SaaS'', reddit_url ''SaaS'', reddit_url ''SaaS'',
      reddit_url ''startups'', reddit_url ''startups'', reddit_url ''startups'']"
    by code_simp
  from a b c show ?thesis by simp
qed

section \<open>The review harvester\<close>

text \<open>
  C10. \<open>scrape_reviews\<close> returns a value on every input (every operation that can
  raise stands inside a \<open>try\<close>). It returns None exactly when \<open>find_app\<close> does.
  When \<open>find_app\<close> finds an app it returns the list the fetch stage had collected
  when it ended, whether it ended by an exception or not: the empty list when the
  request itself raises, and the records of the items before the first one that raises
  otherwise. So a fetch that fails before the first record returns what a fetch with
  no qualifying review returns.
\<close>

theorem scrape_reviews_total:
  "(fst (scrape_reviews e tr n p) = None \<longleftrightarrow> fst (find_app e tr n p) = None) \<and>
   (\<forall>info tr1 raised opps tr2.
      find_app e tr n p = (Some info, tr1) \<and> fetch_reviews e tr1 info = (raised, opps, tr2) \<longrightarrow>
        scrape_reviews e tr n p = (Some opps, tr2)) \<and>
   (\<forall>info tr1 x.
      find_app e tr n p = (Some info, tr1) \<and> ai_platform info = Android \<and>
      play_reviews e tr1 (ai_id info) = Inl x \<longrightarrow>
        fst (scrape_reviews e tr n p) = Some []) \<and>
   (\<forall>info tr1 v rs.
      find_app e tr n p = (Some info, tr1) \<and> ai_platform info = Android \<and>
      play_reviews e tr1 (ai_id info) = Inr v \<and> py_iter v = Inr rs \<longrightarrow>
        fst (scrape_reviews e tr n p) = Some (kept_until (android_review e info) rs)) \<and>
   (\<forall>info tr1 x.
      find_app e tr n p = (Some info, tr1) \<and> ai_platform info = Ios \<and>
      http_get e tr1 (plain_get (ios_feed_url e info) []) = Inl x \<longrightarrow>
        fst (scrape_reviews e tr n p) = Some []) \<and>
   (\<forall>info tr1 resp data feed entries rs.
      find_app e tr n p = (Some info, tr1) \<and> ai_platform info = Ios \<and>
      http_get e tr1 (plain_get (ios_feed_url e info) []) = Inr resp \<and>
      body_json resp = Inr data \<and> py_get data ''feed'' (JDict []) = Inr feed \<and>
      py_get feed ''entry'' (JList []) = Inr entries \<and> py_iter entries = Inr rs \<longrightarrow>
        fst (scrape_reviews e tr n p) = Some (kept_until (ios_review e info) rs))"
proof (intro conjI allI impI)
  show "fst (scrape_reviews e tr n p) = None \<longleftrightarrow> fst (find_app e tr n p) = None"
    by (auto simp: scrape_reviews_def split: prod.splits option.splits)
qed (auto simp: scrape_reviews_def fetch_reviews_def review_loop_spec bindE_def
          split: prod.splits option.splits)

theorem scrape_reviews_total_witness:
  "fst (scrape_reviews fx_ios_search_only [] ''notion'' (JStr ''ios'')) = Some [] \<and>
   fst (scrape_reviews fx_ios_no_reviews [] ''notion'' (JStr ''ios'')) = Some [] \<and>
   fst (scrape_reviews fx_ios_no_app [] ''notion'' (JStr ''ios'')) = None"
proof -
  have f1: "find_app fx_ios_search_only [] ''notion'' (JStr ''ios'') =
      (Some fx_notion, [NetGet (ios_search_request ''notion'')])"
    by code_simp
  have p: "ai_platform fx_notion = Ios" by code_simp
  have r1: "http_get fx_ios_search_only [NetGet (ios_search_request ''notion'')]
       (plain_get (ios_feed_url fx_ios_search_only fx_notion) []) = Inl RequestError"
    by code_simp
  from scrape_reviews_total[of fx_ios_search_only "[]" "''notion''" "JStr ''ios''"] f1 p r1
  have a: "fst (scrape_reviews fx_ios_search_only [] ''notion'' (JStr ''ios'')) = Some []"
    by blast
  have f2: "find_app fx_ios_no_reviews [] ''notion'' (JStr ''ios'') =
      (Some fx_notion, [NetGet (ios_search_request ''notion'')])"
    by code_simp
  have r2: "fetch_reviews fx_ios_no_reviews [NetGet (ios_search_request ''notion'')] fx_notion =
      (None, [], [NetGet (ios_search_request ''notion''), NetGet (plain_get fx_ios_feed_url [])])"
    by code_simp
  from scrape_reviews_total[of fx_ios_no_reviews "[]" "''notion''" "JStr ''ios''"] f2 r2
  have b: "fst (scrape_reviews fx_ios_no_reviews [] ''notion'' (JStr ''ios'')) = Some []"
    by (metis fst_conv)
  have f3: "fst (find_app fx_ios_no_app [] ''notion'' (JStr ''ios'')) = None"
    by code_simp
  from scrape_reviews_total[of fx_ios_no_app "[]" "''notion''" "JStr ''ios''"] f3
  have c: "fst (scrape_reviews fx_ios_no_app [] ''notion'' (JStr ''ios'')) = None"
    by blast
  from a b c show ?thesis by simp
qed

section \<open>The API harvester\<close>

lemma is_safe_url_trace:
  "\<exists>new. snd (is_safe_url e tr u) = tr @ new \<and>
         gate_checks new = [(u, fst (is_safe_url e tr u))] \<and> net_urls new = []"
  by (auto simp: is_safe_url_def is_safe_url_try_def Let_def
           split: sum.splits option.splits prod.splits)

lemma gate_checks_append: "gate_checks (a @ b) = gate_checks a @ gate_checks b"
  by (induction a rule: gate_checks.induct) auto

lemma net_urls_append: "net_urls (a @ b) = net_urls a @ net_urls b"
  by (induction a rule: net_urls.induct) auto

lemma hn_schedule_spec:
  "\<exists>new. snd (hn_schedule e tr tasks sids) = tr @ new \<and>
         map fst (gate_checks new) = map (hn_item_url e) sids \<and>
         fst (hn_schedule e tr tasks sids) = tasks @ map fst (filter snd (gate_checks new)) \<and>
         net_urls new = []"
proof (induction sids arbitrary: tr tasks)
  case Nil
  show ?case by simp
next
  case (Cons sid rest)
  let ?u = "hn_item_url e sid"
  obtain ok tr1 where g: "is_safe_url e tr ?u = (ok, tr1)"
    by (cases "is_safe_url e tr ?u") auto
  from is_safe_url_trace[of e tr ?u] g obtain n1 where
    n1: "tr1 = tr @ n1" "gate_checks n1 = [(?u, ok)]" "net_urls n1 = []"
    by auto
  let ?tasks1 = "if ok then tasks @ [?u] else tasks"
  from Cons.IH[of tr1 ?tasks1] obtain n2 where
    n2: "snd (hn_schedule e tr1 ?tasks1 rest) = tr1 @ n2"
        "map fst (gate_checks n2) = map (hn_item_url e) rest"
        "fst (hn_schedule e tr1 ?tasks1 rest) = ?tasks1 @ map fst (filter snd (gate_checks n2))"
        "net_urls n2 = []"
    by blast
  have step: "hn_schedule e tr tasks (sid # rest) = hn_schedule e tr1 ?tasks1 rest"
    using g by (simp add: Let_def)
  show ?case
    unfolding step
    using n1 n2
    by (intro exI[of _ "n1 @ n2"]) (auto simp: gate_checks_append net_urls_append)
qed

lemma gather_spec:
  "snd (gather e tr us) = tr @ map (\<lambda>u. NetGet (plain_get u [])) us \<and>
   length (fst (gather e tr us)) = length us"
  by (induction us arbitrary: tr) (simp_all add: Let_def split_def)

lemma gather_nth:
  "i < length us \<Longrightarrow>
   fst (gather e tr us) ! i =
     http_get e (tr @ map (\<lambda>u. NetGet (plain_get u [])) (take i us)) (plain_get (us ! i) [])"
proof (induction us arbitrary: tr i)
  case Nil
  then show ?case by simp
next
  case (Cons u us)
  show ?case
  proof (cases i)
    case 0
    then show ?thesis by (simp add: Let_def split_def)
  next
    case (Suc j)
    with Cons.prems have "j < length us" by simp
    from Cons.IH[OF this, of "tr @ [NetGet (plain_get u [])]"] Suc
    show ?thesis by (simp add: Let_def split_def)
  qed
qed

lemma hn_collect_readable:
  "\<not> list_ex (unreadable e) rs \<Longrightarrow>
   hn_collect e acc rs = Inr (acc @ concat (map (hn_records e) rs))"
  by (induction rs arbitrary: acc)
     (auto simp: unreadable_def hn_records_def split: sum.splits option.splits)

lemma hn_collect_unreadable:
  "list_ex (unreadable e) rs \<Longrightarrow> isl (hn_collect e acc rs)"
  by (induction rs arbitrary: acc)
     (auto simp: unreadable_def split: sum.splits option.splits)

lemma hn_collect_result:
  "(case hn_collect e [] rs of Inl x \<Rightarrow> [] | Inr opps \<Rightarrow> opps) = hn_result e rs"
proof (cases "list_ex (unreadable e) rs")
  case True
  from hn_collect_unreadable[OF True, of "[]"] True show ?thesis
    by (auto simp: hn_result_def split: sum.splits)
next
  case False
  from hn_collect_readable[OF False, of "[]"] False show ?thesis
    by (simp add: hn_result_def)
qed

lemma hn_result_drop_failed:
  "fetch_failed bad \<Longrightarrow> hn_result e (rs1 @ bad # rs2) = hn_result e (rs1 @ rs2)"
  by (auto simp: hn_result_def fetch_failed_def unreadable_def hn_records_def list_ex_iff
           split: sum.splits)

lemma net_urls_requests: "net_urls (map (\<lambda>u. NetGet (plain_get u [])) us) = us"
  by (induction us) (simp_all add: plain_get_def)

text \<open>
  C8. When the listing URL passes the gate and the listing is a JSON list \<open>ids\<close>:
  after the jitter and the listing request, the harvest checks the item URL of each of
  \<open>ids[:limit]\<close> (the first \<open>limit\<close> identifiers when \<open>limit \<ge> 0\<close>) at the gate, one
  after the other and with no request in between, then issues one request for each URL
  that passed, in that order, and no other. The list of results has one slot per
  request, the slot \<open>i\<close> holding the outcome of the request \<open>i\<close>, and what the harvest
  returns is the records of the slots in the order of the requests, whatever the
  replies are. A slot that failed (an exception in its place, or a status other than
  200) contributes no record and changes nothing else: the harvest returns what the
  batch without that slot gives. A reply with status 200 that cannot be read is not
  such a failure: \<open>r.json()\<close> raises inside the \<open>try\<close> and the harvest returns the empty
  list, which is what \<open>hn_result\<close> says of a batch with an unreadable slot.
\<close>

theorem hn_fan_out:
  assumes "is_safe_url e tr hn_list_url = (True, tr1)"
    and "http_get e (tr1 @ [Sleep]) (plain_get hn_list_url []) = Inr resp"
    and "body_json resp = Inr (JList ids)"
  shows "\<exists>tasks checks.
      snd (scrape_hn_opportunities e tr limit) =
        tr1 @ [Sleep, NetGet (plain_get hn_list_url [])] @ checks
          @ map (\<lambda>u. NetGet (plain_get u [])) tasks \<and>
      net_urls checks = [] \<and>
      map fst (gate_checks checks) = map (hn_item_url e) (slice_to limit ids) \<and>
      tasks = map fst (filter snd (gate_checks checks)) \<and>
      (0 \<le> limit \<longrightarrow> slice_to limit ids = take (nat limit) ids) \<and>
      (\<exists>responses.
         length responses = length tasks \<and>
         (\<forall>i < length tasks.
            responses ! i =
              http_get e (tr1 @ [Sleep, NetGet (plain_get hn_list_url [])] @ checks
                            @ map (\<lambda>u. NetGet (plain_get u [])) (take i tasks))
                (plain_get (tasks ! i) [])) \<and>
         fst (scrape_hn_opportunities e tr limit) = hn_result e responses \<and>
         (\<forall>rs1 bad rs2. responses = rs1 @ bad # rs2 \<and> fetch_failed bad \<longrightarrow>
            hn_records e bad = [] \<and>
            fst (scrape_hn_opportunities e tr limit) = hn_result e (rs1 @ rs2)))"
proof -
  let ?tr3 = "tr1 @ [Sleep, NetGet (plain_get hn_list_url [])]"
  let ?sids = "slice_to limit ids"
  obtain tasks tr4 where s: "hn_schedule e ?tr3 [] ?sids = (tasks, tr4)"
    by (cases "hn_schedule e ?tr3 [] ?sids") auto
  from hn_schedule_spec[of e ?tr3 "[]" ?sids] s obtain checks where
    c: "tr4 = ?tr3 @ checks" "map fst (gate_checks checks) = map (hn_item_url e) ?sids"
       "tasks = map fst (filter snd (gate_checks checks))" "net_urls checks = []"
    by auto
  obtain responses tr5 where g: "gather e tr4 tasks = (responses, tr5)"
    by (cases "gather e tr4 tasks") auto
  from gather_spec[of e tr4 tasks] g have
    g5: "tr5 = tr4 @ map (\<lambda>u. NetGet (plain_get u [])) tasks" and len: "length responses = length tasks"
    by auto
  have run: "scrape_hn_opportunities e tr limit =
      (case hn_collect e [] responses of Inl x \<Rightarrow> ([], tr5) | Inr opps \<Rightarrow> (opps, tr5))"
    using assms s g by (simp add: scrape_hn_opportunities_def Let_def bindE_def)
  have tr: "snd (scrape_hn_opportunities e tr limit) = ?tr3 @ checks @ map (\<lambda>u. NetGet (plain_get u [])) tasks"
    unfolding run using g5 c(1) by (auto split: sum.splits)
  have nth: "\<forall>i < length tasks. responses ! i =
      http_get e (?tr3 @ checks @ map (\<lambda>u. NetGet (plain_get u [])) (take i tasks)) (plain_get (tasks ! i) [])"
    using gather_nth[of _ tasks e tr4] g c(1) by auto
  have "fst (scrape_hn_opportunities e tr limit) =
      (case hn_collect e [] responses of Inl x \<Rightarrow> [] | Inr opps \<Rightarrow> opps)"
    unfolding run by (simp split: sum.splits)
  then have res: "fst (scrape_hn_opportunities e tr limit) = hn_result e responses"
    by (simp only: hn_collect_result)
  have iso: "\<forall>rs1 bad rs2. responses = rs1 @ bad # rs2 \<and> fetch_failed bad \<longrightarrow>
      hn_records e bad = [] \<and>
      fst (scrape_hn_opportunities e tr limit) = hn_result e (rs1 @ rs2)"
  proof (intro allI impI, elim conjE)
    fix rs1 bad rs2
    assume r: "responses = rs1 @ bad # rs2" and f: "fetch_failed bad"
    from f have "hn_records e bad = []"
      by (auto simp: fetch_failed_def hn_records_def split: sum.splits)
    moreover from res r hn_result_drop_failed[OF f, of e rs1 rs2]
    have "fst (scrape_hn_opportunities e tr limit) = hn_result e (rs1 @ rs2)" by simp
    ultimately show "hn_records e bad = [] \<and>
      fst (scrape_hn_opportunities e tr limit) = hn_result e (rs1 @ rs2)" ..
  qed
  have sl: "0 \<le> limit \<longrightarrow> slice_to limit ids = take (nat limit) ids"
    by (simp add: slice_to_def)
  have inner: "\<exists>responses.
         length responses = length tasks \<and>
         (\<forall>i < length tasks.
            responses ! i =
              http_get e (?tr3 @ checks @ map (\<lambda>u. NetGet (plain_get u [])) (take i tasks))
                (plain_get (tasks ! i) [])) \<and>
         fst (scrape_hn_opportunities e tr limit) = hn_result e responses \<and>
         (\<forall>rs1 bad rs2. responses = rs1 @ bad # rs2 \<and> fetch_failed bad \<longrightarrow>
            hn_records e bad = [] \<and>
            fst (scrape_hn_opportunities e tr limit) = hn_result e (rs1 @ rs2))"
    using len nth res iso by (intro exI[of _ responses]) blast
  from tr c(2,3,4) sl inner show ?thesis
    by (intro exI[of _ tasks] exI[of _ checks]) simp
qed

theorem hn_fan_out_witness:
  "fst (scrape_hn_opportunities fx_hn_env [] 3) =
     [\<lparr>opp_id = JStr ''101'', opp_text = ''[HN] Ask HN: How to price a SaaS - body'',
       opp_url = JStr ''https://news.ycombinator.com/item?id=101'', opp_source = ''Hacker News''\<rparr>] \<and>
   net_urls (snd (scrape_hn_opportunities fx_hn_env [] 3)) =
     [hn_list_url, ''https://hacker-news.firebaseio.com/v0/item/101.json'',
      ''https://hacker-news.firebaseio.com/v0/item/102.json'',
      ''https://hacker-news.firebaseio.com/v0/item/103.json''] \<and>
   fst (scrape_hn_opportunities fx_hn_env [] 4) =
     [\<lparr>opp_id = JStr ''101'', opp_text = ''[HN] Ask HN: How to price a SaaS - body'',
       opp_url = JStr ''https://news.ycombinator.com/item?id=101'', opp_source = ''Hacker News''\<rparr>,
      \<lparr>opp_id = JStr ''104'', opp_text = ''[HN] Ask HN: Alternative to Jira - body'',
       opp_url = JStr ''https://news.ycombinator.com/item?id=104'', opp_source = ''Hacker News''\<rparr>] \<and>
   (\<exists>checks responses.
      map fst (gate_checks checks) =
        map (hn_item_url fx_hn_env) (take 3 [JInt 101, JInt 102, JInt 103, JInt 104]) \<and>
      snd (scrape_hn_opportunities fx_hn_env [] 3) =
        [DnsLookup ''hacker-news.firebaseio.com'', GateCheck hn_list_url True, Sleep,
         NetGet (plain_get hn_list_url [])] @ checks @
        map (\<lambda>u. NetGet (plain_get u [])) (map fst (filter snd (gate_checks checks))) \<and>
      length responses = length (map fst (filter snd (gate_checks checks))) \<and>
      hn_result fx_hn_env responses =
        [\<lparr>opp_id = JStr ''101'', opp_text = ''[HN] Ask HN: How to price a SaaS - body'',
          opp_url = JStr ''https://news.ycombinator.com/item?id=101'',
          opp_source = ''Hacker News''\<rparr>]) \<and>
   fst (scrape_hn_opportunities fx_hn_bad_env [] 2) = [] \<and>
   (\<exists>responses. length responses = 2 \<and> hn_result fx_hn_bad_env responses = [])"
proof -
  let ?t1 = "[DnsLookup ''hacker-news.firebaseio.com'', GateCheck hn_list_url True]"
  have a1: "is_safe_url fx_hn_env [] hn_list_url = (True, ?t1)" by code_simp
  have a2: "http_get fx_hn_env (?t1 @ [Sleep]) (plain_get hn_list_url []) =
      Inr (fx_ok (JList [JInt 101, JInt 102, JInt 103, JInt 104]))"
    by code_simp
  have a3: "body_json (fx_ok (JList [JInt 101, JInt 102, JInt 103, JInt 104])) =
      Inr (JList [JInt 101, JInt 102, JInt 103, JInt 104])"
    by code_simp
  have r: "fst (scrape_hn_opportunities fx_hn_env [] 3) =
     [\<lparr>opp_id = JStr ''101'', opp_text = ''[HN] Ask HN: How to price a SaaS - body'',
       opp_url = JStr ''https://news.ycombinator.com/item?id=101'', opp_source = ''Hacker News''\<rparr>]"
    by code_simp
  have n: "net_urls (snd (scrape_hn_opportunities fx_hn_env [] 3)) =
     [hn_list_url, ''https://hacker-news.firebaseio.com/v0/item/101.json'',
      ''https://hacker-news.firebaseio.com/v0/item/102.json'',
      ''https://hacker-news.firebaseio.com/v0/item/103.json'']"
    by code_simp
  have r4: "fst (scrape_hn_opportunities fx_hn_env [] 4) =
     [\<lparr>opp_id = JStr ''101'', opp_text = ''[HN] Ask HN: How to price a SaaS - body'',
       opp_url = JStr ''https://news.ycombinator.com/item?id=101'', opp_source = ''Hacker News''\<rparr>,
      \<lparr>opp_id = JStr ''104'', opp_text = ''[HN] Ask HN: Alternative to Jira - body'',
       opp_url = JStr ''https://news.ycombinator.com/item?id=104'', opp_source = ''Hacker News''\<rparr>]"
    by code_simp
  from hn_fan_out[OF a1 a2 a3, of 3] obtain tasks checks responses where
    h: "snd (scrape_hn_opportunities fx_hn_env [] 3) =
          ?t1 @ [Sleep, NetGet (plain_get hn_list_url [])] @ checks
            @ map (\<lambda>u. NetGet (plain_get u [])) tasks"
       "map fst (gate_checks checks) =
          map (hn_item_url fx_hn_env) (slice_to 3 [JInt 101, JInt 102, JInt 103, JInt 104])"
       "tasks = map fst (filter snd (gate_checks checks))"
       "(0::int) \<le> 3 \<longrightarrow> slice_to 3 [JInt 101, JInt 102, JInt 103, JInt 104] =
          take (nat 3) [JInt 101, JInt 102, JInt 103, JInt 104]"
       "length responses = length tasks"
       "fst (scrape_hn_opportunities fx_hn_env [] 3) = hn_result fx_hn_env responses"
    by blast
  from h(2,4) have c: "map fst (gate_checks checks) =
        map (hn_item_url fx_hn_env) (take 3 [JInt 101, JInt 102, JInt 103, JInt 104])"
    by simp
  from h(1,3) have t: "snd (scrape_hn_opportunities fx_hn_env [] 3) =
        [DnsLookup ''hacker-news.firebaseio.com'', GateCheck hn_list_url True, Sleep,
         NetGet (plain_get hn_list_url [])] @ checks @
        map (\<lambda>u. NetGet (plain_get u [])) (map fst (filter snd (gate_checks checks)))"
    by simp
  from h(3,5) have l: "length responses = length (map fst (filter snd (gate_checks checks)))"
    by simp
  from h(6) r have o: "hn_result fx_hn_env responses =
        [\<lparr>opp_id = JStr ''101'', opp_text = ''[HN] Ask HN: How to price a SaaS - body'',
          opp_url = JStr ''https://news.ycombinator.com/item?id=101'',
          opp_source = ''Hacker News''\<rparr>]"
    by simp
  have b1: "is_safe_url fx_hn_bad_env [] hn_list_url = (True, ?t1)" by code_simp
  have b2: "http_get fx_hn_bad_env (?t1 @ [Sleep]) (plain_get hn_list_url []) =
      Inr (fx_ok (JList [JInt 101, JInt 105]))"
    by code_simp
  have b3: "body_json (fx_ok (JList [JInt 101, JInt 105])) = Inr (JList [JInt 101, JInt 105])"
    by code_simp
  have rb: "fst (scrape_hn_opportunities fx_hn_bad_env [] 2) = []"
    by code_simp
  have nb: "length (net_urls (snd (scrape_hn_opportunities fx_hn_bad_env [] 2))) = 3"
    by code_simp
  from hn_fan_out[OF b1 b2 b3, of 2] obtain tasks' checks' responses' where
    k: "snd (scrape_hn_opportunities fx_hn_bad_env [] 2) =
          ?t1 @ [Sleep, NetGet (plain_get hn_list_url [])] @ checks'
            @ map (\<lambda>u. NetGet (plain_get u [])) tasks'"
       "net_urls checks' = []"
       "length responses' = length tasks'"
       "fst (scrape_hn_opportunities fx_hn_bad_env [] 2) = hn_result fx_hn_bad_env responses'"
    by blast
  have "net_urls (map (\<lambda>u. NetGet (plain_get u [])) tasks') = tasks'"
    by (rule net_urls_requests)
  with k(1,2) have "net_urls (snd (scrape_hn_opportunities fx_hn_bad_env [] 2)) = hn_list_url # tasks'"
    by (simp add: net_urls_append plain_get_def)
  with nb k(3) have lb: "length responses' = 2" by simp
  from k(4) rb have ob: "hn_result fx_hn_bad_env responses' = []" by simp
  from r n r4 c t l o rb lb ob show ?thesis by blast
qed

section \<open>The gate in the API and the feed harvester\<close>

text \<open>
  The two other harvesters do put the gate before each of their requests: whatever
  the world answers, the events they add to the trace are gated.
\<close>

lemma gated_append:
  "gated p (a @ b) \<longleftrightarrow> gated p a \<and> gated (passed_after p a) b"
  by (induction p a rule: gated.induct) auto

lemma passed_after_append:
  "passed_after p (a @ b) = passed_after (passed_after p a) b"
  by (induction p a rule: passed_after.induct) auto

lemma passed_after_grows: "set p \<subseteq> set (passed_after p a)"
proof (induction p a rule: passed_after.induct)
  case (2 passed u ok tr)
  then show ?case by (cases ok) auto
qed auto

lemma gate_gated:
  "\<exists>new. snd (is_safe_url e tr u) = tr @ new \<and> gated p new \<and>
         passed_after p new = (if fst (is_safe_url e tr u) then u # p else p)"
  by (auto simp: is_safe_url_def is_safe_url_try_def Let_def
           split: sum.splits option.splits prod.splits)

lemma requests_gated:
  "set us \<subseteq> set p \<Longrightarrow> gated p (map (\<lambda>u. NetGet (plain_get u hs)) us)"
  by (induction us) (auto simp: plain_get_def)

lemma hn_schedule_gated:
  "\<exists>new. snd (hn_schedule e tr tasks sids) = tr @ new \<and> gated p new \<and>
         set (fst (hn_schedule e tr tasks sids)) \<subseteq> set tasks \<union> set (passed_after p new)"
proof (induction sids arbitrary: tr tasks p)
  case Nil
  show ?case by simp
next
  case (Cons sid rest)
  let ?u = "hn_item_url e sid"
  obtain ok tr1 where g: "is_safe_url e tr ?u = (ok, tr1)"
    by (cases "is_safe_url e tr ?u") auto
  from gate_gated[of e tr ?u p] g obtain n1 where
    n1: "tr1 = tr @ n1" "gated p n1" "passed_after p n1 = (if ok then ?u # p else p)"
    by auto
  let ?tasks1 = "if ok then tasks @ [?u] else tasks"
  let ?p1 = "passed_after p n1"
  from Cons.IH[of tr1 ?tasks1 ?p1] obtain n2 where
    n2: "snd (hn_schedule e tr1 ?tasks1 rest) = tr1 @ n2" "gated ?p1 n2"
        "set (fst (hn_schedule e tr1 ?tasks1 rest)) \<subseteq> set ?tasks1 \<union> set (passed_after ?p1 n2)"
    by blast
  have step: "hn_schedule e tr tasks (sid # rest) = hn_schedule e tr1 ?tasks1 rest"
    using g by (simp add: Let_def)
  have t1: "set ?tasks1 \<subseteq> set tasks \<union> set ?p1" using n1(3) by auto
  have g1: "set ?p1 \<subseteq> set (passed_after ?p1 n2)" by (rule passed_after_grows)
  from t1 g1 n2(3) have "set (fst (hn_schedule e tr1 ?tasks1 rest)) \<subseteq>
      set tasks \<union> set (passed_after ?p1 n2)"
    by blast
  then have sub: "set (fst (hn_schedule e tr1 ?tasks1 rest)) \<subseteq>
      set tasks \<union> set (passed_after p (n1 @ n2))"
    by (simp only: passed_after_append)
  show ?case
    unfolding step
    using n1 n2 sub
    by (intro exI[of _ "n1 @ n2"]) (simp add: gated_append)
qed

lemma scrape_hn_gated:
  "\<exists>new. snd (scrape_hn_opportunities e tr limit) = tr @ new \<and> gated [] new"
proof -
  obtain ok tr1 where g: "is_safe_url e tr hn_list_url = (ok, tr1)"
    by (cases "is_safe_url e tr hn_list_url") auto
  from gate_gated[of e tr hn_list_url "[]"] g obtain n1 where
    n1: "tr1 = tr @ n1" "gated [] n1" "passed_after [] n1 = (if ok then [hn_list_url] else [])"
    by auto
  show ?thesis
  proof (cases ok)
    case False
    with g n1 show ?thesis by (simp add: scrape_hn_opportunities_def)
  next
    case True
    let ?listing = "[Sleep, NetGet (plain_get hn_list_url [])]"
    let ?tr3 = "tr1 @ ?listing"
    have l: "gated [] (n1 @ ?listing)" "passed_after [] (n1 @ ?listing) = [hn_list_url]"
      using n1 True by (simp_all add: gated_append passed_after_append plain_get_def)
    show ?thesis
    proof (cases "bindE (http_get e (tr1 @ [Sleep]) (plain_get hn_list_url []))
                    (\<lambda>r. bindE (body_json r) (\<lambda>ids. bindE (py_slice_to limit ids) py_iter))")
      case (Inl x)
      with g True have "snd (scrape_hn_opportunities e tr limit) = tr @ (n1 @ ?listing)"
        using n1(1) by (simp add: scrape_hn_opportunities_def Let_def)
      with l(1) show ?thesis by blast
    next
      case (Inr sids)
      let ?p = "[hn_list_url]"
      obtain tasks tr4 where s: "hn_schedule e ?tr3 [] sids = (tasks, tr4)"
        by (cases "hn_schedule e ?tr3 [] sids") auto
      from hn_schedule_gated[of e ?tr3 "[]" sids ?p] s obtain n2 where
        n2: "tr4 = ?tr3 @ n2" "gated ?p n2" "set tasks \<subseteq> set (passed_after ?p n2)"
        by auto
      have tr5: "snd (gather e tr4 tasks) = tr4 @ map (\<lambda>u. NetGet (plain_get u [])) tasks"
        using gather_spec[of e tr4 tasks] by simp
      have "snd (scrape_hn_opportunities e tr limit) = snd (gather e tr4 tasks)"
        using g True Inr s
        by (simp add: scrape_hn_opportunities_def Let_def split_def split: sum.splits)
      then have "snd (scrape_hn_opportunities e tr limit) =
          tr @ ((n1 @ ?listing) @ n2 @ map (\<lambda>u. NetGet (plain_get u [])) tasks)"
        using tr5 n2(1) n1(1) by simp
      moreover have "gated [] ((n1 @ ?listing) @ n2 @ map (\<lambda>u. NetGet (plain_get u [])) tasks)"
        using l n2 requests_gated[of tasks "passed_after ?p n2" "[]"]
        by (simp only: gated_append[of "[]" "n1 @ ?listing"] gated_append[of ?p n2])
      ultimately show ?thesis by blast
    qed
  qed
qed

lemma attempts_gated:
  "\<forall>r \<in> set reqs. req_url r \<in> set p \<Longrightarrow>
   gated p (intersperse Sleep (map NetGet reqs)) \<and>
   passed_after p (intersperse Sleep (map NetGet reqs)) = p"
  by (induction reqs rule: intersperse.induct) auto

lemma reddit_subs_gated:
  "\<exists>new. snd (reddit_subs e tr acc subs) = tr @ new \<and> gated p new"
proof (induction subs arbitrary: tr acc p)
  case Nil
  show ?case by simp
next
  case (Cons sub rest)
  show ?case
  proof (cases "py_strip sub")
    case (Inl x)
    then show ?thesis by simp
  next
    case (Inr clean)
    let ?u = "reddit_url clean"
    obtain ok tr1 where g: "is_safe_url e tr ?u = (ok, tr1)"
      by (cases "is_safe_url e tr ?u") auto
    from gate_gated[of e tr ?u p] g obtain n1 where
      n1: "tr1 = tr @ n1" "gated p n1" "passed_after p n1 = (if ok then ?u # p else p)"
      by auto
    show ?thesis
    proof (cases ok)
      case False
      from Cons.IH[of tr1 acc "passed_after p n1"] obtain n2 where
        n2: "snd (reddit_subs e tr1 acc rest) = tr1 @ n2" "gated (passed_after p n1) n2"
        by blast
      have "reddit_subs e tr acc (sub # rest) = reddit_subs e tr1 acc rest"
        using Inr g False by simp
      with n1 n2 show ?thesis
        by (intro exI[of _ "n1 @ n2"]) (simp add: gated_append)
    next
      case True
      obtain su opps tr2 where r: "reddit_retry e tr1 clean 1 acc = (su, opps, tr2)"
        by (cases "reddit_retry e tr1 clean 1 acc") auto
      from retry_trace_from[of 1 e tr1 clean acc] r obtain reqs where
        q: "tr2 = tr1 @ intersperse Sleep (map NetGet reqs)"
           "\<forall>r \<in> set reqs. req_url r = ?u"
        by (auto simp: attempts_def)
      let ?n2 = "intersperse Sleep (map NetGet reqs)"
      let ?p1 = "passed_after p n1"
      from q(2) n1(3) True have "\<forall>r \<in> set reqs. req_url r \<in> set ?p1" by simp
      from attempts_gated[OF this] have a: "gated ?p1 ?n2" "passed_after ?p1 ?n2 = ?p1" by auto
      from Cons.IH[of tr2 opps ?p1] obtain n3 where
        n3: "snd (reddit_subs e tr2 opps rest) = tr2 @ n3" "gated ?p1 n3"
        by blast
      have "reddit_subs e tr acc (sub # rest) = reddit_subs e tr2 opps rest"
        using Inr g True r by simp
      with n1 q(1) a n3 show ?thesis
        by (intro exI[of _ "n1 @ ?n2 @ n3"]) (simp add: gated_append)
    qed
  qed
qed

lemma scrape_reddit_gated:
  "\<exists>new. snd (scrape_reddit_rss e tr subreddits) = tr @ new \<and> gated [] new"
  using reddit_subs_gated[of e tr "[]" _ "[]"]
  by (auto simp: scrape_reddit_rss_def split: sum.splits)

end
